theory Spec2Isabelle
  imports Complex_Main "HOL-Library.AList"
begin

section \<open>Errors\<close>

text \<open>
  Every \<^verbatim>\<open>throw std::runtime_error(...)\<close> of the modelled functions is one
  constructor, named after its message. Dereferencing a null pointer, casting a
  non-finite or out-of-range double to \<^verbatim>\<open>int\<close>, and constructing a
  \<^verbatim>\<open>std::string\<close> from a pair of pointers into two different arrays are undefined
  behaviour in C++; the model makes them errors of their own.
\<close>

datatype error =
    VehicleNotOnLattice
  | CannotFindFrontNode nat
  | CannotMatchFrontNode
  | UpdateVehiclesMismatch
  | VehicleWaypointsMismatch
  | StartAndRangeFailed
  | NewStartNotOnLattice
  | NoParentAvailable
  | NotATerminal
  | NegativeSpeed
  | NoTerminalStation
  | OnlyRootStation
  | CannotFindParent
  | UndefinedStringRange
  | AgentNotInSnapshot
  | NullPointer
  | UndefinedCast

text \<open>The specification calls both failures of \<^verbatim>\<open>isChangingLane\<close> a topology mismatch.\<close>

fun topology_mismatch :: "error \<Rightarrow> bool" where
  "topology_mismatch (CannotFindFrontNode i) = True"
| "topology_mismatch CannotMatchFrontNode = True"
| "topology_mismatch _ = False"

section \<open>The traffic lattice\<close>

subsection \<open>Nodes and the lattice state\<close>

text \<open>
  A \<^verbatim>\<open>WaypointNodeWithVehicle\<close>: the four neighbour links are weak pointers, kept
  here as the id of the node they point to (\<open>n_front\<close> for \<^verbatim>\<open>front_\<close>, and so on); \<open>vehicle\<close> is the
  \<^verbatim>\<open>boost::optional<size_t>\<close> occupant. The id of a node is the id of its waypoint
  and is the key of \<^verbatim>\<open>waypoint_to_node_table_\<close>.
\<close>

record node =
  n_front :: "nat option"
  n_back :: "nat option"
  n_left :: "nat option"
  n_right :: "nat option"
  vehicle :: "nat option"
  distance :: real

text \<open>
  The state of a \<^verbatim>\<open>TrafficLattice\<close> that the vehicle operations read and write:
  the node table and \<^verbatim>\<open>vehicle_to_nodes_table_\<close>, which maps a vehicle id to
  the vector of (weak pointers to) the nodes it occupies, rear node first. Both are
  \<^verbatim>\<open>std::unordered_map\<close>s; they are association lists here, so that the loops
  over all their entries are loops over a list. A new key is put at the end, and no
  function modelled here depends on the order of the entries.
\<close>

record lattice =
  nodes :: "(nat \<times> node) list"
  vehicle_to_nodes_table :: "(nat \<times> nat list) list"

text \<open>\<^verbatim>\<open>vehicle_to_nodes_table_.find(v)\<close>.\<close>

definition nodes_of_vehicle :: "lattice \<Rightarrow> nat \<Rightarrow> nat list option" where
  "nodes_of_vehicle L v = map_of (vehicle_to_nodes_table L) v"

definition node_at :: "lattice \<Rightarrow> nat \<Rightarrow> node option" where
  "node_at L i = map_of (nodes L) i"

text \<open>\<^verbatim>\<open>weak_ptr::lock()\<close>: the pointee, when it is still a node of the lattice.\<close>

definition lock :: "lattice \<Rightarrow> nat option \<Rightarrow> nat option" where
  "lock L p = (case p of None \<Rightarrow> None
     | Some i \<Rightarrow> (case node_at L i of None \<Rightarrow> None | Some nd \<Rightarrow> Some i))"

definition front_of :: "lattice \<Rightarrow> nat \<Rightarrow> nat option" where
  "front_of L i = (case node_at L i of None \<Rightarrow> None | Some nd \<Rightarrow> lock L (n_front nd))"

definition back_of :: "lattice \<Rightarrow> nat \<Rightarrow> nat option" where
  "back_of L i = (case node_at L i of None \<Rightarrow> None | Some nd \<Rightarrow> lock L (n_back nd))"

definition left_of :: "lattice \<Rightarrow> nat \<Rightarrow> nat option" where
  "left_of L i = (case node_at L i of None \<Rightarrow> None | Some nd \<Rightarrow> lock L (n_left nd))"

definition right_of :: "lattice \<Rightarrow> nat \<Rightarrow> nat option" where
  "right_of L i = (case node_at L i of None \<Rightarrow> None | Some nd \<Rightarrow> lock L (n_right nd))"

definition vehicle_of :: "lattice \<Rightarrow> nat \<Rightarrow> nat option" where
  "vehicle_of L i = (case node_at L i of None \<Rightarrow> None | Some nd \<Rightarrow> vehicle nd)"

text \<open>The assignment \<^verbatim>\<open>node->vehicle() = v\<close> on the node with id \<open>k\<close>.\<close>

definition set_vehicle :: "lattice \<Rightarrow> nat \<Rightarrow> nat option \<Rightarrow> lattice" where
  "set_vehicle L k v =
     L\<lparr>nodes := map (\<lambda>(i, nd). if i = k then (i, nd\<lparr>vehicle := v\<rparr>) else (i, nd)) (nodes L)\<rparr>"

subsection \<open>addVehicle\<close>

text \<open>
  The first loop of \<^verbatim>\<open>addVehicle\<close>: from the rear node forward, until the mid node
  or a lane neighbour of the mid node is met, or the front link ends. The C++ loop is
  \<^verbatim>\<open>while (true)\<close> and need not end on a cyclic chain of front links, so the
  result is optional: \<open>None\<close> is a loop that never exits.
\<close>

partial_function (option) rear_node_forward ::
  "lattice \<Rightarrow> nat \<Rightarrow> nat \<Rightarrow> nat list \<Rightarrow> nat list option" where
  "rear_node_forward L mid_node next_node acc =
     (if next_node = mid_node then Some acc
      else if left_of L mid_node \<noteq> None \<and> Some next_node = left_of L mid_node then Some acc
      else if right_of L mid_node \<noteq> None \<and> Some next_node = right_of L mid_node then Some acc
      else (case front_of L next_node of
              None \<Rightarrow> Some (acc @ [next_node])
            | Some f \<Rightarrow> rear_node_forward L mid_node f (acc @ [next_node])))"

text \<open>The second loop: from the head node backward, by the same rule.\<close>

partial_function (option) head_node_backward ::
  "lattice \<Rightarrow> nat \<Rightarrow> nat \<Rightarrow> nat list \<Rightarrow> nat list option" where
  "head_node_backward L mid_node next_node acc =
     (if next_node = mid_node then Some acc
      else if left_of L mid_node \<noteq> None \<and> Some next_node = left_of L mid_node then Some acc
      else if right_of L mid_node \<noteq> None \<and> Some next_node = right_of L mid_node then Some acc
      else (case back_of L next_node of
              None \<Rightarrow> Some (acc @ [next_node])
            | Some b \<Rightarrow> head_node_backward L mid_node b (acc @ [next_node])))"

text \<open>
  The collision loop: every collected node is claimed for the vehicle until one is
  found that already carries a vehicle; the flag tells whether the loop broke.
\<close>

fun mark_nodes :: "nat \<Rightarrow> nat list \<Rightarrow> lattice \<Rightarrow> bool \<times> lattice" where
  "mark_nodes v [] L = (False, L)"
| "mark_nodes v (k # ks) L =
     (if vehicle_of L k \<noteq> None then (True, L)
      else mark_nodes v ks (set_vehicle L k (Some v)))"

text \<open>The roll-back loop of the collision branch.\<close>

fun unmark_nodes :: "nat \<Rightarrow> nat list \<Rightarrow> lattice \<Rightarrow> lattice" where
  "unmark_nodes v [] L = L"
| "unmark_nodes v (k # ks) L =
     (if vehicle_of L k = None then unmark_nodes v ks L
      else if vehicle_of L k \<noteq> Some v then unmark_nodes v ks L
      else unmark_nodes v ks (set_vehicle L k None))"

text \<open>
  The list of nodes a vehicle would occupy: the rear walk, the mid node, the reversed
  head walk.
\<close>

definition collect_nodes :: "lattice \<Rightarrow> nat \<Rightarrow> nat \<Rightarrow> nat \<Rightarrow> nat list option" where
  "collect_nodes L rear_node mid_node head_node =
     (case rear_node_forward L mid_node rear_node [] of
        None \<Rightarrow> None
      | Some rf \<Rightarrow>
          (case head_node_backward L mid_node head_node [] of
             None \<Rightarrow> None
           | Some hb \<Rightarrow> Some (rf @ [mid_node] @ rev hb)))"

text \<open>
  \<^verbatim>\<open>TrafficLattice::addVehicle(vehicle, waypoints)\<close>. \<open>closestNode\<close> is the method of
  the \<^verbatim>\<open>Lattice\<close> base class (not part of the sources at hand), called with the
  lattice's longitudinal resolution as tolerance; it is a parameter here, and a result
  that is not a node of the lattice counts as \<^verbatim>\<open>nullptr\<close>. The waypoints are the
  array (rear, mid, head). The result is the return code with the new state, or \<open>None\<close>
  when a walk never exits.
\<close>

definition addVehicle ::
  "(lattice \<Rightarrow> 'wp \<Rightarrow> nat option) \<Rightarrow> lattice \<Rightarrow> nat \<Rightarrow> 'wp \<times> 'wp \<times> 'wp
     \<Rightarrow> (int \<times> lattice) option" where
  "addVehicle closestNode L v waypoints =
     (case waypoints of (rear_waypoint, mid_waypoint, head_waypoint) \<Rightarrow>
      if nodes_of_vehicle L v \<noteq> None then Some (0, L)
      else
        (case (lock L (closestNode L head_waypoint),
               lock L (closestNode L rear_waypoint),
               lock L (closestNode L mid_waypoint)) of
           (Some head_node, Some rear_node, Some mid_node) \<Rightarrow>
             (case collect_nodes L rear_node mid_node head_node of
                None \<Rightarrow> None
              | Some ns \<Rightarrow>
                  (case mark_nodes v ns L of
                     (collision_flag, L1) \<Rightarrow>
                       if \<not> collision_flag
                       then Some (1, L1\<lparr>vehicle_to_nodes_table :=
                                          AList.update v ns (vehicle_to_nodes_table L1)\<rparr>)
                       else Some (- 1, unmark_nodes v ns L1)))
         | _ \<Rightarrow> Some (0, L)))"

subsection \<open>deleteVehicle\<close>

fun clear_nodes :: "nat list \<Rightarrow> lattice \<Rightarrow> lattice" where
  "clear_nodes [] L = L"
| "clear_nodes (k # ks) L =
     clear_nodes ks (if lock L (Some k) \<noteq> None then set_vehicle L k None else L)"

definition deleteVehicle :: "lattice \<Rightarrow> nat \<Rightarrow> int \<times> lattice" where
  "deleteVehicle L v =
     (case nodes_of_vehicle L v of
        None \<Rightarrow> (0, L)
      | Some ns \<Rightarrow>
          (1, (clear_nodes ns L)\<lparr>vehicle_to_nodes_table :=
                                   AList.delete v (vehicle_to_nodes_table L)\<rparr>))"

subsection \<open>Well-formed lattices\<close>

text \<open>
  The invariants of the data model that the properties below rely on: node ids are
  unique keys; a node that carries a vehicle is in the node list recorded for that
  vehicle; the distance from the root grows along every front link and falls along
  every back link.
\<close>

definition unique_node_ids :: "lattice \<Rightarrow> bool" where
  "unique_node_ids L = distinct (map fst (nodes L))"

definition occupancy_consistent :: "lattice \<Rightarrow> bool" where
  "occupancy_consistent L =
     list_all (\<lambda>(i, nd). case vehicle nd of
                  None \<Rightarrow> True
                | Some u \<Rightarrow> (case nodes_of_vehicle L u of
                              None \<Rightarrow> False
                            | Some ns \<Rightarrow> i \<in> set ns)) (nodes L)"

definition front_increasing :: "lattice \<Rightarrow> bool" where
  "front_increasing L =
     list_all (\<lambda>(i, nd). case front_of L i of
                  None \<Rightarrow> True
                | Some f \<Rightarrow> (case node_at L f of
                              None \<Rightarrow> True
                            | Some fn \<Rightarrow> distance nd < distance fn)) (nodes L)"

definition back_decreasing :: "lattice \<Rightarrow> bool" where
  "back_decreasing L =
     list_all (\<lambda>(i, nd). case back_of L i of
                  None \<Rightarrow> True
                | Some b \<Rightarrow> (case node_at L b of
                              None \<Rightarrow> True
                            | Some bn \<Rightarrow> distance bn < distance nd)) (nodes L)"

text \<open>Measures for the two walks: the number of nodes farther from, or nearer to, the root.\<close>

definition ahead :: "lattice \<Rightarrow> nat \<Rightarrow> nat" where
  "ahead L n = (case node_at L n of None \<Rightarrow> 0
     | Some nd \<Rightarrow> length (filter (\<lambda>(j, x). distance nd < distance x) (nodes L)))"

definition behind :: "lattice \<Rightarrow> nat \<Rightarrow> nat" where
  "behind L n = (case node_at L n of None \<Rightarrow> 0
     | Some nd \<Rightarrow> length (filter (\<lambda>(j, x). distance x < distance nd) (nodes L)))"

text \<open>
  An example: a lane of the nodes 0 to 4 with, on its left, a lane of the nodes 10 to 14,
  one metre apart; vehicle 5 is on node 0 and vehicle 7 on the nodes 2 and 3. In the
  example a waypoint is the id of its node.
\<close>

definition example_lattice :: lattice where
  "example_lattice =
     \<lparr>nodes =
        [(0, \<lparr>n_front = Some 1, n_back = None, n_left = Some 10, n_right = None,
               vehicle = Some 5, distance = 0\<rparr>),
         (1, \<lparr>n_front = Some 2, n_back = Some 0, n_left = Some 11, n_right = None,
               vehicle = None, distance = 1\<rparr>),
         (2, \<lparr>n_front = Some 3, n_back = Some 1, n_left = Some 12, n_right = None,
               vehicle = Some 7, distance = 2\<rparr>),
         (3, \<lparr>n_front = Some 4, n_back = Some 2, n_left = Some 13, n_right = None,
               vehicle = Some 7, distance = 3\<rparr>),
         (4, \<lparr>n_front = None, n_back = Some 3, n_left = Some 14, n_right = None,
               vehicle = None, distance = 4\<rparr>),
         (10, \<lparr>n_front = Some 11, n_back = None, n_left = None, n_right = Some 0,
               vehicle = None, distance = 0\<rparr>),
         (11, \<lparr>n_front = Some 12, n_back = Some 10, n_left = None, n_right = Some 1,
               vehicle = None, distance = 1\<rparr>),
         (12, \<lparr>n_front = Some 13, n_back = Some 11, n_left = None, n_right = Some 2,
               vehicle = None, distance = 2\<rparr>),
         (13, \<lparr>n_front = Some 14, n_back = Some 12, n_left = None, n_right = Some 3,
               vehicle = None, distance = 3\<rparr>),
         (14, \<lparr>n_front = None, n_back = Some 13, n_left = None, n_right = Some 4,
               vehicle = None, distance = 4\<rparr>)],
      vehicle_to_nodes_table = [(5, [0]), (7, [2, 3])]\<rparr>"

definition example_closestNode :: "lattice \<Rightarrow> nat \<Rightarrow> nat option" where
  "example_closestNode L w = Some w"

subsection \<open>isChangingLane and the front-vehicle query\<close>

text \<open>
  Modelled from the spec: \<^verbatim>\<open>vehicleRearNode\<close> and \<^verbatim>\<open>vehicleHeadNode\<close> are declared
  in the header of the class, which is not part of the sources at hand. The recorded
  node list is ordered from the rear node to the head node (the comment in
  \<^verbatim>\<open>addVehicle\<close> says so as well), so they are the first and the last entry of
  the vehicle's list, locked.
\<close>

definition vehicleRearNode :: "lattice \<Rightarrow> nat \<Rightarrow> nat option" where
  "vehicleRearNode L v =
     (case nodes_of_vehicle L v of
        None \<Rightarrow> None
      | Some ns \<Rightarrow> (case ns of [] \<Rightarrow> None | k # ks \<Rightarrow> lock L (Some k)))"

definition vehicleHeadNode :: "lattice \<Rightarrow> nat \<Rightarrow> nat option" where
  "vehicleHeadNode L v =
     (case nodes_of_vehicle L v of
        None \<Rightarrow> None
      | Some ns \<Rightarrow> (case ns of [] \<Rightarrow> None | k # ks \<Rightarrow> lock L (Some (last ns))))"

text \<open>
  The loop \<^verbatim>\<open>for (int i = 0; i < length; ++i)\<close> of \<^verbatim>\<open>isChangingLane\<close>: \<open>i\<close> is
  the loop counter (it is part of the error message), the last argument counts the
  iterations that remain.
\<close>

fun walk_front :: "lattice \<Rightarrow> nat \<Rightarrow> nat \<Rightarrow> nat \<Rightarrow> error + nat" where
  "walk_front L front_node i 0 = Inr front_node"
| "walk_front L front_node i (Suc remaining) =
     (case front_of L front_node of
        None \<Rightarrow> Inl (CannotFindFrontNode i)
      | Some f \<Rightarrow> walk_front L f (Suc i) remaining)"

definition isChangingLane :: "lattice \<Rightarrow> nat \<Rightarrow> error + int" where
  "isChangingLane L v =
     (case nodes_of_vehicle L v of
        None \<Rightarrow> Inl VehicleNotOnLattice
      | Some ns \<Rightarrow>
          (case (vehicleRearNode L v, vehicleHeadNode L v) of
             (Some rear_node, Some head_node) \<Rightarrow>
               (case walk_front L rear_node 0 (length ns) of
                  Inl e \<Rightarrow> Inl e
                | Inr front_node \<Rightarrow>
                    if front_node = head_node then Inr 0
                    else if left_of L front_node \<noteq> None
                            \<and> left_of L front_node = Some head_node then Inr (- 1)
                    else if right_of L front_node \<noteq> None
                            \<and> right_of L front_node = Some head_node then Inr 1
                    else Inl CannotMatchFrontNode)
           | _ \<Rightarrow> Inl NullPointer))"

text \<open>
  What the specification says of \<^verbatim>\<open>isChangingLane\<close>: the node reached after \<open>k\<close>
  front steps, when every front link on the way exists.
\<close>

definition front_steps :: "lattice \<Rightarrow> nat \<Rightarrow> nat \<Rightarrow> nat option" where
  "front_steps L k n = ((\<lambda>p. case p of None \<Rightarrow> None | Some i \<Rightarrow> front_of L i) ^^ k) (Some n)"

text \<open>
  \<^verbatim>\<open>TrafficLattice::frontVehicle\<close>: the loop \<^verbatim>\<open>while (front)\<close> follows the front
  links until a node with a vehicle is met. It need not end on a cyclic chain, so the
  result is optional at the outer level; the inner option is the
  \<^verbatim>\<open>boost::optional\<close> the function returns.
\<close>

partial_function (option) frontVehicle_loop ::
  "lattice \<Rightarrow> real \<Rightarrow> nat option \<Rightarrow> (nat \<times> real) option option" where
  "frontVehicle_loop L start_distance front_node =
     (case front_node of
        None \<Rightarrow> Some None
      | Some f \<Rightarrow>
          (case node_at L f of
             None \<Rightarrow> Some None
           | Some nd \<Rightarrow>
               (case vehicle nd of
                  Some u \<Rightarrow> Some (Some (u, distance nd - start_distance))
                | None \<Rightarrow> frontVehicle_loop L start_distance (lock L (n_front nd)))))"

definition frontVehicle :: "lattice \<Rightarrow> nat option \<Rightarrow> (error + (nat \<times> real) option) option" where
  "frontVehicle L start =
     (case start of
        None \<Rightarrow> Some (Inl NullPointer)
      | Some s \<Rightarrow>
          (case node_at L s of
             None \<Rightarrow> Some (Inl NullPointer)
           | Some nd \<Rightarrow>
               (case frontVehicle_loop L (distance nd) (lock L (n_front nd)) of
                  None \<Rightarrow> None
                | Some r \<Rightarrow> Some (Inr r))))"

text \<open>\<^verbatim>\<open>TrafficLattice::front(vehicle)\<close>.\<close>

definition TrafficLattice_front :: "lattice \<Rightarrow> nat \<Rightarrow> (error + (nat \<times> real) option) option" where
  "TrafficLattice_front L v =
     (if nodes_of_vehicle L v = None then Some (Inl VehicleNotOnLattice)
      else frontVehicle L (vehicleHeadNode L v))"

subsection \<open>registerVehicles and moveTrafficForward\<close>






text \<open>The loop that clears the nodes of all registered vehicles, then the table.\<close>

fun clear_vehicles :: "(nat \<times> nat list) list \<Rightarrow> lattice \<Rightarrow> lattice" where
  "clear_vehicles [] L = L"
| "clear_vehicles ((v, ns) # items) L = clear_vehicles items (clear_nodes ns L)"

definition clear_all :: "lattice \<Rightarrow> lattice" where
  "clear_all L = (clear_vehicles (vehicle_to_nodes_table L) L)\<lparr>vehicle_to_nodes_table := []\<rparr>"




text \<open>
  The lattice without its vehicles: what \<^verbatim>\<open>addVehicle\<close> never changes (the nodes
  with their links and distances).
\<close>

definition without_vehicles :: "lattice \<Rightarrow> lattice" where
  "without_vehicles L =
     L\<lparr>nodes := map (\<lambda>(i, nd). (i, nd\<lparr>vehicle := None\<rparr>)) (nodes L),
       vehicle_to_nodes_table := []\<rparr>"


section \<open>Vehicles, snapshots and the traffic simulators\<close>

text \<open>
  The class \<^verbatim>\<open>Vehicle\<close>, with the fields that the functions modelled here read; its
  bounding box and transform are only passed on to the map and are left out.
\<close>

record Vehicle =
  vehicle_id :: nat
  speed :: real
  policySpeed :: real
  acceleration :: real
  curvature :: real

text \<open>
  Modelled from the spec: the class \<^verbatim>\<open>Snapshot\<close> is not part of the sources at hand.
  It is the triple of the ego, the agents (a mapping from vehicle id to vehicle) and
  the traffic lattice; \<^verbatim>\<open>agent(id)\<close> looks an agent up and \<^verbatim>\<open>vehicle(id)\<close> is the
  ego for the ego's id and the agent otherwise.
\<close>

record Snapshot =
  ego :: Vehicle
  agents :: "(nat \<times> Vehicle) list"
  trafficLattice :: lattice

definition agent :: "Snapshot \<Rightarrow> nat \<Rightarrow> error + Vehicle" where
  "agent S a = (case map_of (agents S) a of None \<Rightarrow> Inl AgentNotInSnapshot | Some x \<Rightarrow> Inr x)"

definition vehicle_of_snapshot :: "Snapshot \<Rightarrow> nat \<Rightarrow> error + Vehicle" where
  "vehicle_of_snapshot S i = (if i = vehicle_id (ego S) then Inr (ego S) else agent S i)"

subsection \<open>ConstAccelTrafficSimulator\<close>

definition ConstAccel_egoAcceleration :: "Snapshot \<Rightarrow> real" where
  "ConstAccel_egoAcceleration snapshot = acceleration (ego snapshot)"

definition ConstAccel_agentAcceleration :: "Snapshot \<Rightarrow> nat \<Rightarrow> error + real" where
  "ConstAccel_agentAcceleration snapshot a =
     (case agent snapshot a of Inl e \<Rightarrow> Inl e | Inr x \<Rightarrow> Inr (acceleration x))"

subsection \<open>IDMTrafficSimulator\<close>

text \<open>
  The car-following model \<^verbatim>\<open>idm_->idm(...)\<close> is external (the class
  \<^verbatim>\<open>IntelligentDriverModel\<close> is not part of the sources at hand) and is a parameter:
  \<open>idm v v0 None\<close> is the call with the speed and the policy speed only,
  \<open>idm v v0 (Some (lead_speed, following_distance))\<close> the call with a lead vehicle.
  The outer option of the results is the one of \<open>TrafficLattice_front\<close>.
\<close>

definition IDM_egoAcceleration ::
  "(real \<Rightarrow> real \<Rightarrow> (real \<times> real) option \<Rightarrow> real) \<Rightarrow> Snapshot \<Rightarrow> (error + real) option" where
  "IDM_egoAcceleration idm snapshot =
     (case TrafficLattice_front (trafficLattice snapshot) (vehicle_id (ego snapshot)) of
        None \<Rightarrow> None
      | Some (Inl e) \<Rightarrow> Some (Inl e)
      | Some (Inr (Some (lead_id, following_distance))) \<Rightarrow>
          (case vehicle_of_snapshot snapshot lead_id of
             Inl e \<Rightarrow> Some (Inl e)
           | Inr lead \<Rightarrow>
               Some (Inr (idm (speed (ego snapshot)) (policySpeed (ego snapshot))
                            (Some (speed lead, following_distance)))))
      | Some (Inr None) \<Rightarrow>
          Some (Inr (idm (speed (ego snapshot)) (policySpeed (ego snapshot)) None)))"

definition IDM_agentAcceleration ::
  "(real \<Rightarrow> real \<Rightarrow> (real \<times> real) option \<Rightarrow> real) \<Rightarrow> Snapshot \<Rightarrow> nat \<Rightarrow> (error + real) option" where
  "IDM_agentAcceleration idm snapshot a =
     (case TrafficLattice_front (trafficLattice snapshot) a of
        None \<Rightarrow> None
      | Some (Inl e) \<Rightarrow> Some (Inl e)
      | Some (Inr (Some (lead_id, following_distance))) \<Rightarrow>
          (case vehicle_of_snapshot snapshot lead_id of
             Inl e \<Rightarrow> Some (Inl e)
           | Inr lead \<Rightarrow>
               (case vehicle_of_snapshot snapshot a of
                  Inl e \<Rightarrow> Some (Inl e)
                | Inr x \<Rightarrow>
                    Some (Inr (idm (speed x) (policySpeed x)
                                 (Some (speed lead, following_distance))))))
      | Some (Inr None) \<Rightarrow>
          (case vehicle_of_snapshot snapshot a of
             Inl e \<Rightarrow> Some (Inl e)
           | Inr x \<Rightarrow> Some (Inr (idm (speed x) (policySpeed x) None))))"

text \<open>
  Example snapshots over the example lattice: the ego is vehicle 7 and the agent is
  vehicle 5, two metres behind the ego. The snapshots differ in the stored acceleration
  \<open>a\<close> of the agent and in nothing else.
\<close>

definition example_snapshot :: "real \<Rightarrow> Snapshot" where
  "example_snapshot a =
     \<lparr>ego = \<lparr>vehicle_id = 7, speed = 10, policySpeed = 20, acceleration = - 2, curvature = 0\<rparr>,
      agents = [(5, \<lparr>vehicle_id = 5, speed = 15, policySpeed = 20, acceleration = a,
                     curvature = 0\<rparr>)],
      trafficLattice = example_lattice\<rparr>"

section \<open>The station graph of the IDM lattice planner\<close>

subsection \<open>Stations\<close>

text \<open>
  A parent entry is the tuple (snapshot, cost-to-come, parent station) and a child
  entry the tuple (path, stage cost, child station). The stations in them are weak
  pointers; a pointer is the address of a station object here. The type of the paths
  (\<^verbatim>\<open>ContinuousPath\<close>) is external and is a type variable.
\<close>

type_synonym Parent = "Snapshot \<times> real \<times> nat"

type_synonym 'path Child = "'path \<times> real \<times> nat"

definition parent_cost :: "Parent \<Rightarrow> real" where
  "parent_cost p = fst (snd p)"

text \<open>
  The class \<^verbatim>\<open>Station\<close>: \<open>station_id\<close> is the id of the waypoint node it is pinned
  to and \<open>node_distance\<close> the distance of that node on the waypoint lattice.
\<close>

record 'path Station =
  station_id :: nat
  node_distance :: real
  snapshot :: Snapshot
  left_parent :: "Parent option"
  back_parent :: "Parent option"
  right_parent :: "Parent option"
  optimal_parent :: "Parent option"
  left_child :: "'path Child option"
  front_child :: "'path Child option"
  right_child :: "'path Child option"


definition hasChild :: "'path Station \<Rightarrow> bool" where
  "hasChild s \<longleftrightarrow> left_child s \<noteq> None \<or> front_child s \<noteq> None \<or> right_child s \<noteq> None"


text \<open>The parent entries of a station that are set.\<close>

definition parents :: "'path Station \<Rightarrow> Parent list" where
  "parents s =
     (case back_parent s of None \<Rightarrow> [] | Some p \<Rightarrow> [p]) @
     (case left_parent s of None \<Rightarrow> [] | Some p \<Rightarrow> [p]) @
     (case right_parent s of None \<Rightarrow> [] | Some p \<Rightarrow> [p])"

text \<open>
  One of the three statements
  \<^verbatim>\<open>if (x_parent_ && std::get<1>(*x_parent_) <= std::get<1>(*optimal_parent_)) optimal_parent_ = x_parent_;\<close>
  of \<^verbatim>\<open>Station::updateOptimalParent\<close>.
\<close>

definition prefer_parent :: "Parent option \<Rightarrow> Parent \<Rightarrow> Parent" where
  "prefer_parent candidate optimal =
     (case candidate of
        None \<Rightarrow> optimal
      | Some c \<Rightarrow> if parent_cost c \<le> parent_cost optimal then c else optimal)"

text \<open>
  \<^verbatim>\<open>Station::updateOptimalParent\<close>: an optimal parent that is not set yet is set to the
  left, else the back, else the right parent; then the left, the right and the back
  parent are compared with it, in this order; then the snapshot is copied.
\<close>

definition updateOptimalParent :: "'path Station \<Rightarrow> error + 'path Station" where
  "updateOptimalParent s =
     (case (case optimal_parent s of
              Some p \<Rightarrow> Some p
            | None \<Rightarrow>
                (case left_parent s of
                   Some p \<Rightarrow> Some p
                 | None \<Rightarrow>
                     (case back_parent s of
                        Some p \<Rightarrow> Some p
                      | None \<Rightarrow> right_parent s))) of
        None \<Rightarrow> Inl NoParentAvailable
      | Some p0 \<Rightarrow>
          let p1 = prefer_parent (left_parent s) p0;
              p2 = prefer_parent (right_parent s) p1;
              p3 = prefer_parent (back_parent s) p2
          in Inr (s\<lparr>optimal_parent := Some p3, snapshot := fst p3\<rparr>))"

definition updateLeftParent ::
  "'path Station \<Rightarrow> Snapshot \<Rightarrow> real \<Rightarrow> nat \<Rightarrow> error + 'path Station" where
  "updateLeftParent s snap cost_to_come parent_station =
     updateOptimalParent (s\<lparr>left_parent := Some (snap, cost_to_come, parent_station)\<rparr>)"

definition updateBackParent ::
  "'path Station \<Rightarrow> Snapshot \<Rightarrow> real \<Rightarrow> nat \<Rightarrow> error + 'path Station" where
  "updateBackParent s snap cost_to_come parent_station =
     updateOptimalParent (s\<lparr>back_parent := Some (snap, cost_to_come, parent_station)\<rparr>)"

definition updateRightParent ::
  "'path Station \<Rightarrow> Snapshot \<Rightarrow> real \<Rightarrow> nat \<Rightarrow> error + 'path Station" where
  "updateRightParent s snap cost_to_come parent_station =
     updateOptimalParent (s\<lparr>right_parent := Some (snap, cost_to_come, parent_station)\<rparr>)"

subsection \<open>Arithmetic on doubles\<close>

text \<open>
  Speeds, distances and costs are doubles. A finite double is the real number it stands
  for, and the comparisons and the sums of costs are those of the real numbers. Where
  the source computes the key of a cost table or looks for the interval of a speed, its
  arithmetic is followed operation by operation as IEEE 754 binary64 arithmetic in the
  default rounding mode: the exact result is rounded to the nearest double, a tie to the
  double with the even significand; a result beyond the largest double is an infinity; a
  division by zero gives an infinity or, for 0/0, a NaN. Every comparison with a NaN is
  false, and the conversion of a NaN, an infinity or a value outside the range of
  \<^verbatim>\<open>int\<close> to \<^verbatim>\<open>int\<close> is undefined behaviour. In these functions a real number
  that is given for a double (a field, an argument, a literal of the source) stands for
  the double next to it, as a decimal literal does in the source: it is rounded where it
  is read, which changes nothing when it is a double. The sign of a zero is not
  represented: a zero is \<^verbatim>\<open>+0.0\<close>. Only a division by a zero depends on that sign;
  the divisor of \<^verbatim>\<open>terminalDistanceCost\<close> is a difference, which is never
  \<^verbatim>\<open>-0.0\<close>, and the divisor of \<^verbatim>\<open>terminalSpeedCost\<close> is the policy speed of
  the ego.
\<close>

datatype double = Finite real | PlusInfinity | MinusInfinity | NotANumber

text \<open>The number of binary digits of a natural number.\<close>

fun bit_length :: "nat \<Rightarrow> nat" where
  "bit_length n = (if n = 0 then 0 else Suc (bit_length (n div 2)))"

declare bit_length.simps [simp del]

text \<open>
  The binary exponent of a positive number \<open>x\<close>: the integer \<open>e\<close> with
  \<open>pow2 e \<le> x < pow2 (e + 1)\<close>, where \<open>pow2 e\<close> is the power of two with the exponent \<open>e\<close>.
\<close>

definition binade :: "real \<Rightarrow> int" where
  "binade x =
     (if 1 \<le> x then int (bit_length (nat \<lfloor>x\<rfloor>)) - 1
      else - int (bit_length (nat (\<lceil>1 / x\<rceil> - 1))))"

definition pow2 :: "int \<Rightarrow> real" where
  "pow2 e = (if 0 \<le> e then 2 ^ nat e else 1 / 2 ^ nat (- e))"

text \<open>Rounding to the nearest integer, a tie to the even one.\<close>

definition round_even :: "real \<Rightarrow> int" where
  "round_even x =
     (let f = \<lfloor>x\<rfloor>; d = x - of_int f
      in if d < 1 / 2 then f
         else if 1 / 2 < d then f + 1
         else if even f then f else f + 1)"

text \<open>
  The double that an exact result \<open>x\<close> is rounded to. The doubles next to \<open>x\<close> are the
  multiples of \<open>ulp\<close>, the weight of the last of the 53 bits of a significand whose
  first bit has the weight of the binade of \<open>x\<close>; below the smallest normal double,
  whose exponent is -1022, the weight stays that of the subnormal doubles. The
  magnitude is rounded to the nearest multiple; one that reaches \<open>2 ^ 1024\<close> is an
  overflow.
\<close>

definition round_double :: "real \<Rightarrow> double" where
  "round_double x =
     (if x = 0 then Finite 0
      else
        let ulp = pow2 (max (binade \<bar>x\<bar>) (- 1022) - 52);
            y = of_int (round_even (\<bar>x\<bar> / ulp)) * ulp
        in if 2 ^ 1024 \<le> y then (if 0 < x then PlusInfinity else MinusInfinity)
           else Finite (if 0 < x then y else - y))"

text \<open>The doubles among the real numbers: the numbers that are rounded to themselves.\<close>

definition is_double :: "real \<Rightarrow> bool" where
  "is_double x = (round_double x = Finite x)"

fun double_neg :: "double \<Rightarrow> double" where
  "double_neg (Finite a) = Finite (- a)"
| "double_neg PlusInfinity = MinusInfinity"
| "double_neg MinusInfinity = PlusInfinity"
| "double_neg NotANumber = NotANumber"

fun double_add :: "double \<Rightarrow> double \<Rightarrow> double" where
  "double_add (Finite a) (Finite b) = round_double (a + b)"
| "double_add NotANumber y = NotANumber"
| "double_add x NotANumber = NotANumber"
| "double_add PlusInfinity MinusInfinity = NotANumber"
| "double_add MinusInfinity PlusInfinity = NotANumber"
| "double_add PlusInfinity y = PlusInfinity"
| "double_add MinusInfinity y = MinusInfinity"
| "double_add (Finite a) y = y"

definition double_sub :: "double \<Rightarrow> double \<Rightarrow> double" where
  "double_sub x y = double_add x (double_neg y)"

fun double_mul :: "double \<Rightarrow> double \<Rightarrow> double" where
  "double_mul (Finite a) (Finite b) = round_double (a * b)"
| "double_mul NotANumber y = NotANumber"
| "double_mul x NotANumber = NotANumber"
| "double_mul (Finite a) y =
     (if a = 0 then NotANumber else if 0 < a then y else double_neg y)"
| "double_mul x (Finite b) =
     (if b = 0 then NotANumber else if 0 < b then x else double_neg x)"
| "double_mul PlusInfinity y = y"
| "double_mul MinusInfinity y = double_neg y"

fun double_div :: "double \<Rightarrow> double \<Rightarrow> double" where
  "double_div (Finite a) (Finite b) =
     (if b \<noteq> 0 then round_double (a / b)
      else if 0 < a then PlusInfinity
      else if a < 0 then MinusInfinity
      else NotANumber)"
| "double_div NotANumber y = NotANumber"
| "double_div x NotANumber = NotANumber"
| "double_div (Finite a) y = Finite 0"
| "double_div x (Finite b) = (if 0 \<le> b then x else double_neg x)"
| "double_div x y = NotANumber"

text \<open>The comparison \<^verbatim>\<open>x < y\<close>.\<close>

fun double_less :: "double \<Rightarrow> double \<Rightarrow> bool" where
  "double_less (Finite a) (Finite b) = (a < b)"
| "double_less (Finite a) PlusInfinity = True"
| "double_less MinusInfinity (Finite b) = True"
| "double_less MinusInfinity PlusInfinity = True"
| "double_less x y = False"

text \<open>The test \<^verbatim>\<open>ratio >= 1.0\<close>.\<close>

fun at_least_one :: "double \<Rightarrow> bool" where
  "at_least_one (Finite r) = (1 \<le> r)"
| "at_least_one PlusInfinity = True"
| "at_least_one MinusInfinity = False"
| "at_least_one NotANumber = False"

text \<open>\<^verbatim>\<open>static_cast<int>(x)\<close>: truncation towards zero.\<close>

definition truncate_to_int :: "real \<Rightarrow> error + int" where
  "truncate_to_int x =
     (let t = (if 0 \<le> x then \<lfloor>x\<rfloor> else \<lceil>x\<rceil>)
      in if - 2147483648 \<le> t \<and> t \<le> 2147483647 then Inr t else Inl UndefinedCast)"

fun double_to_int :: "double \<Rightarrow> error + int" where
  "double_to_int (Finite r) = truncate_to_int r"
| "double_to_int _ = Inl UndefinedCast"

text \<open>
  \<^verbatim>\<open>cost_map[key]\<close> on a \<^verbatim>\<open>std::unordered_map<int, double>\<close>: a key that is not in
  the map is inserted with the value 0.0, which is then the result.
\<close>

definition cost_map_at :: "(int \<times> real) list \<Rightarrow> int \<Rightarrow> real" where
  "cost_map_at cost_map key = (case map_of cost_map key of None \<Rightarrow> 0 | Some c \<Rightarrow> c)"

subsection \<open>Terminal costs\<close>

definition speed_cost_map :: "(int \<times> real) list" where
  "speed_cost_map =
     [(0, 4.0), (1, 4.0), (2, 4.0), (3, 3.0), (4, 3.0),
      (5, 2.0), (6, 2.0), (7, 1.0), (8, 1.0), (9, 0.0)]"

text \<open>The local \<^verbatim>\<open>speed_ratio\<close> of \<^verbatim>\<open>terminalSpeedCost\<close>.\<close>

definition speed_ratio :: "'path Station \<Rightarrow> double" where
  "speed_ratio station =
     double_div (round_double (speed (ego (snapshot station))))
                (round_double (policySpeed (ego (snapshot station))))"

definition terminalSpeedCost :: "'path Station \<Rightarrow> error + real" where
  "terminalSpeedCost station =
     (if hasChild station then Inl NotATerminal
      else
        let ego_speed = round_double (speed (ego (snapshot station)));
            ego_policy_speed = round_double (policySpeed (ego (snapshot station)))
        in if double_less ego_speed (Finite 0.0) \<or> double_less ego_policy_speed (Finite 0.0)
           then Inl NegativeSpeed
           else if at_least_one (speed_ratio station) then Inr 0
           else (case double_to_int (double_mul (speed_ratio station) (Finite 10.0)) of
                   Inl e \<Rightarrow> Inl e
                 | Inr key \<Rightarrow> Inr (cost_map_at speed_cost_map key)))"

text \<open>
  The table of the specification for the speed cost, entry by entry: a range of keys
  (both ends included) and its value.
\<close>

definition spec_speed_table :: "(int \<times> int \<times> real) list" where
  "spec_speed_table = [(0, 4, 4), (3, 4, 3), (5, 6, 2), (7, 8, 1), (9, 9, 0)]"

text \<open>The table that the code implements: the first range ends at 2.\<close>

definition code_speed_table :: "(int \<times> int \<times> real) list" where
  "code_speed_table = [(0, 2, 4), (3, 4, 3), (5, 6, 2), (7, 8, 1), (9, 9, 0)]"

text \<open>
  The value that a table gives for a key: the value of the first entry whose range holds
  the key.
\<close>

definition bucket_value :: "(int \<times> int \<times> real) list \<Rightarrow> int \<Rightarrow> real option" where
  "bucket_value table key =
     (case filter (\<lambda>(lo, hi, v). lo \<le> key \<and> key \<le> hi) table of
        [] \<Rightarrow> None
      | (lo, hi, v) # rest \<Rightarrow> Some v)"

text \<open>The number of the entries of a table whose range holds a key.\<close>

definition entries_for :: "(int \<times> int \<times> real) list \<Rightarrow> int \<Rightarrow> nat" where
  "entries_for table key = length (filter (\<lambda>(lo, hi, v). lo \<le> key \<and> key \<le> hi) table)"






text \<open>
  Example stations: a station pinned to node \<open>i\<close> at distance \<open>d\<close>, reached by the ego
  with speed \<open>v\<close> (its policy speed is 20), with no parent and no child yet. The paths of
  the examples are numbers.
\<close>

definition example_ego_snapshot :: "real \<Rightarrow> Snapshot" where
  "example_ego_snapshot v = (example_snapshot 0)\<lparr>ego := (ego (example_snapshot 0))\<lparr>speed := v\<rparr>\<rparr>"

definition example_station :: "nat \<Rightarrow> real \<Rightarrow> real \<Rightarrow> nat Station" where
  "example_station i d v =
     \<lparr>station_id = i, node_distance = d, snapshot = example_ego_snapshot v,
      left_parent = None, back_parent = None, right_parent = None, optimal_parent = None,
      left_child = None, front_child = None, right_child = None\<rparr>"


text \<open>A terminal station reached by the ego with the speed \<open>v\<close> and the policy speed \<open>v0\<close>.\<close>

definition example_terminal :: "real \<Rightarrow> real \<Rightarrow> nat Station" where
  "example_terminal v v0 =
     (example_station 60 50 v)
       \<lparr>snapshot := (example_ego_snapshot v)
          \<lparr>ego := (ego (example_ego_snapshot v))\<lparr>policySpeed := v0\<rparr>\<rparr>\<rparr>"
subsection \<open>selectOptimalPath\<close>










section \<open>The vertices of the spatiotemporal lattice planner\<close>

text \<open>
  The bounds of the speed intervals, as the source writes them. The three decimal
  values are not doubles: each stands for the double next to it.
\<close>

definition kSpeedIntervalsPerStation :: "(real \<times> real) list" where
  "kSpeedIntervalsPerStation = [(0.0, 13.4112), (13.4112, 26.8224), (26.8224, 40.2336)]"

text \<open>The double that a literal stands for, as a real number (the literals here are finite).\<close>

definition double_literal :: "real \<Rightarrow> real" where
  "double_literal x = (case round_double x of Finite r \<Rightarrow> r | _ \<Rightarrow> 0)"

text \<open>
  The loop of \<^verbatim>\<open>Vertex::speedIntervalIdx\<close> over the intervals from the index \<open>i\<close> on;
  the second argument is the list of the intervals that are still to be tried.
\<close>

fun speedIntervalLoop :: "double \<Rightarrow> (real \<times> real) list \<Rightarrow> nat \<Rightarrow> nat option" where
  "speedIntervalLoop s [] i = None"
| "speedIntervalLoop s (interval # intervals) i =
     (if double_less s (round_double (snd interval)) then Some i
      else speedIntervalLoop s intervals (Suc i))"

definition speedIntervalIdx :: "real \<Rightarrow> nat option" where
  "speedIntervalIdx x =
     (let s = round_double x
      in if double_less s (Finite 0.0) then None
         else speedIntervalLoop s kSpeedIntervalsPerStation 0)"

text \<open>
  A \<^verbatim>\<open>Vertex\<close>, with the members that \<^verbatim>\<open>addVertexToTable\<close> reads: the node and the
  snapshot, whose ego speed is the speed of the vertex.
\<close>

record Vertex =
  vertex_node :: nat
  vertex_snapshot :: Snapshot

definition vertex_speed :: "Vertex \<Rightarrow> real" where
  "vertex_speed vertex = speed (ego (vertex_snapshot vertex))"

text \<open>
  \<^verbatim>\<open>SpatiotemporalLatticePlanner::addVertexToTable\<close>. The table maps a node id to an
  array of three vertex pointers, one for each speed interval; the access with
  \<^verbatim>\<open>[]\<close> to a node id that is not a key yet makes an array of three null pointers.
  The branch for a speed without an interval is meant to throw a runtime error, but it
  builds the message with \<^verbatim>\<open>std::string error_msg("...", "...")\<close>: the two string
  literals are taken as the first and the last pointer of a range of characters, and
  they point into two different arrays. This is undefined behaviour, and the statements
  after it, the \<^verbatim>\<open>throw\<close> among them, are not reached in the model.
\<close>

definition addVertexToTable ::
  "(nat \<rightharpoonup> Vertex option list) \<Rightarrow> Vertex \<Rightarrow> error + (nat \<rightharpoonup> Vertex option list)" where
  "addVertexToTable node_to_vertices_table vertex =
     (case speedIntervalIdx (vertex_speed vertex) of
        None \<Rightarrow> Inl UndefinedStringRange
      | Some idx \<Rightarrow>
          let vertices = (case node_to_vertices_table (vertex_node vertex) of
                            None \<Rightarrow> [None, None, None]
                          | Some vs \<Rightarrow> vs)
          in Inr (node_to_vertices_table
                    (vertex_node vertex \<mapsto> vertices[idx := Some vertex])))"

section \<open>Properties of the traffic lattice\<close>

subsection \<open>Node table and occupancy lemmas\<close>

lemma alist_eqI:
  "distinct (map fst xs) \<Longrightarrow> map fst xs = map fst ys \<Longrightarrow> map_of xs = map_of ys \<Longrightarrow> xs = ys"
proof (induction xs arbitrary: ys)
  case Nil
  then show ?case by simp
next
  case (Cons x xs)
  obtain y ys' where ys: "ys = y # ys'" using Cons.prems(2) by (cases ys) auto
  obtain k a where x: "x = (k, a)" by (cases x)
  obtain k' b where y: "y = (k', b)" by (cases y)
  have kk: "k' = k" using Cons.prems(2) ys x y by simp
  have ab: "a = b"
    using fun_cong [OF Cons.prems(3), of k] by (simp add: ys x y kk)
  have keys: "map fst xs = map fst ys'" using Cons.prems(2) ys by simp
  have knot: "k \<notin> fst ` set xs" using Cons.prems(1) x by simp
  have "map_of xs = map_of ys'"
  proof
    fix i
    show "map_of xs i = map_of ys' i"
    proof (cases "i = k")
      case True
      have "map_of xs k = None" using knot by (simp add: map_of_eq_None_iff)
      moreover have "map_of ys' k = None"
        using knot keys by (metis map_of_eq_None_iff set_map)
      ultimately show ?thesis using True by simp
    next
      case False
      then show ?thesis using fun_cong [OF Cons.prems(3), of i] by (simp add: ys x y kk)
    qed
  qed
  then have "xs = ys'" using Cons.IH Cons.prems(1) keys by simp
  then show ?case by (simp add: ys x y kk ab)
qed

lemma keys_set_vehicle [simp]: "map fst (nodes (set_vehicle L k v)) = map fst (nodes L)"
  by (induction "nodes L") (auto simp: set_vehicle_def split: prod.splits)

lemma table_set_vehicle [simp]:
  "vehicle_to_nodes_table (set_vehicle L k v) = vehicle_to_nodes_table L"
  by (simp add: set_vehicle_def)

lemma more_set_vehicle [simp]: "lattice.more (set_vehicle L k v) = lattice.more L"
  by (simp add: set_vehicle_def)

lemma map_of_set_entries:
  "map_of (map (\<lambda>(i, nd). if i = k then (i, f nd) else (i, nd)) xs) j =
     (if j = k then map_option f (map_of xs j) else map_of xs j)"
  by (induction xs) auto

lemma node_at_set_vehicle:
  "node_at (set_vehicle L k v) i =
     (if i = k then map_option (\<lambda>nd. nd\<lparr>vehicle := v\<rparr>) (node_at L i) else node_at L i)"
  unfolding node_at_def set_vehicle_def by (simp add: map_of_set_entries)

lemma vehicle_of_set_vehicle:
  "vehicle_of (set_vehicle L k v) i =
     (if i = k \<and> node_at L i \<noteq> None then v else vehicle_of L i)"
  by (auto simp: vehicle_of_def node_at_set_vehicle split: option.splits)

lemma lock_Some [simp]: "lock L (Some k) = (if node_at L k = None then None else Some k)"
  by (simp add: lock_def split: option.splits)

lemma mark_nodes_frame:
  "mark_nodes v ks L = (flag, L1) \<Longrightarrow>
     map fst (nodes L1) = map fst (nodes L) \<and>
     vehicle_to_nodes_table L1 = vehicle_to_nodes_table L \<and>
     lattice.more L1 = lattice.more L"
  by (induction ks arbitrary: L) (auto split: if_splits)

lemma mark_nodes_node_at:
  "mark_nodes v ks L = (flag, L1) \<Longrightarrow>
     node_at L1 i = node_at L i \<or>
     (i \<in> set ks \<and> vehicle_of L i = None \<and>
      node_at L1 i = map_option (\<lambda>nd. nd\<lparr>vehicle := Some v\<rparr>) (node_at L i))"
proof (induction ks arbitrary: L)
  case Nil
  then show ?case by simp
next
  case (Cons k ks)
  show ?case
  proof (cases "vehicle_of L k \<noteq> None")
    case True
    then show ?thesis using Cons.prems by simp
  next
    case False
    then have rec: "mark_nodes v ks (set_vehicle L k (Some v)) = (flag, L1)"
      using Cons.prems by simp
    from Cons.IH [OF rec] False show ?thesis
      by (cases "i = k")
        (auto simp: node_at_set_vehicle vehicle_of_set_vehicle vehicle_of_def
              split: option.splits if_splits)
  qed
qed

lemma mark_nodes_no_collision:
  "mark_nodes v ks L = (False, L1) \<Longrightarrow>
     (\<forall>k\<in>set ks. vehicle_of L k = None) \<and>
     (\<forall>i. node_at L1 i =
        (if i \<in> set ks then map_option (\<lambda>nd. nd\<lparr>vehicle := Some v\<rparr>) (node_at L i)
         else node_at L i))"
proof (induction ks arbitrary: L)
  case Nil
  then show ?case by simp
next
  case (Cons k ks)
  have free: "vehicle_of L k = None" using Cons.prems by (auto split: if_splits)
  then have rec: "mark_nodes v ks (set_vehicle L k (Some v)) = (False, L1)"
    using Cons.prems by simp
  note IH = Cons.IH [OF rec]
  have a: "\<forall>k'\<in>set (k # ks). vehicle_of L k' = None"
    using IH free by (auto simp: vehicle_of_set_vehicle split: if_splits)
  have b: "node_at L1 i =
        (if i \<in> set (k # ks) then map_option (\<lambda>nd. nd\<lparr>vehicle := Some v\<rparr>) (node_at L i)
         else node_at L i)" for i
    using IH by (auto simp: node_at_set_vehicle option.map_comp comp_def)
  show ?case using a b by blast
qed

lemma unmark_nodes_frame:
  "map fst (nodes (unmark_nodes v ks L)) = map fst (nodes L) \<and>
   vehicle_to_nodes_table (unmark_nodes v ks L) = vehicle_to_nodes_table L \<and>
   lattice.more (unmark_nodes v ks L) = lattice.more L"
  by (induction ks arbitrary: L) auto

lemma unmark_nodes_node_at:
  "node_at (unmark_nodes v ks L) i =
     (if i \<in> set ks \<and> vehicle_of L i = Some v
      then map_option (\<lambda>nd. nd\<lparr>vehicle := None\<rparr>) (node_at L i) else node_at L i)"
proof (induction ks arbitrary: L)
  case Nil
  then show ?case by simp
next
  case (Cons k ks)
  show ?case
  proof (cases "vehicle_of L k = Some v")
    case True
    then have "unmark_nodes v (k # ks) L = unmark_nodes v ks (set_vehicle L k None)"
      by simp
    then show ?thesis using True Cons.IH [of "set_vehicle L k None"]
      by (auto simp: node_at_set_vehicle vehicle_of_set_vehicle vehicle_of_def
            split: option.splits)
  next
    case False
    then have "unmark_nodes v (k # ks) L = unmark_nodes v ks L"
      by simp
    then show ?thesis using False Cons.IH [of L] by auto
  qed
qed

lemma clear_nodes_frame:
  "map fst (nodes (clear_nodes ks L)) = map fst (nodes L) \<and>
   vehicle_to_nodes_table (clear_nodes ks L) = vehicle_to_nodes_table L \<and>
   lattice.more (clear_nodes ks L) = lattice.more L"
  by (induction ks arbitrary: L) auto

lemma clear_nodes_node_at:
  "node_at (clear_nodes ks L) i =
     (if i \<in> set ks then map_option (\<lambda>nd. nd\<lparr>vehicle := None\<rparr>) (node_at L i)
      else node_at L i)"
proof (induction ks arbitrary: L)
  case Nil
  then show ?case by simp
next
  case (Cons k ks)
  show ?case
    using Cons.IH [of "set_vehicle L k None"] Cons.IH [of L]
    by (auto simp: node_at_set_vehicle option.map_comp comp_def split: option.splits)
qed

lemma lattice_eqI:
  assumes "distinct (map fst (nodes L))"
    and "map fst (nodes L) = map fst (nodes L')"
    and "\<And>i. node_at L i = node_at L' i"
    and "vehicle_to_nodes_table L = vehicle_to_nodes_table L'"
    and "lattice.more L = lattice.more L'"
  shows "L = L'"
proof -
  have "map_of (nodes L) = map_of (nodes L')"
    using assms(3) by (auto simp: node_at_def)
  then have "nodes L = nodes L'" using alist_eqI assms(1,2) by blast
  then show ?thesis using assms(4,5) by (simp add: lattice.equality)
qed

lemma occupant_registered:
  assumes "occupancy_consistent L" and "vehicle_of L i = Some u"
  shows "nodes_of_vehicle L u \<noteq> None"
proof -
  from assms(2) obtain nd where nd: "map_of (nodes L) i = Some nd" "vehicle nd = Some u"
    by (auto simp: vehicle_of_def node_at_def split: option.splits)
  then have "(i, nd) \<in> set (nodes L)" by (simp add: map_of_SomeD)
  with assms(1) have "case vehicle nd of None \<Rightarrow> True
      | Some u \<Rightarrow> (case nodes_of_vehicle L u of None \<Rightarrow> False | Some ns \<Rightarrow> i \<in> set ns)"
    unfolding occupancy_consistent_def list_all_iff by fastforce
  with nd(2) show ?thesis by (simp split: option.splits)
qed

lemma rollback_restores:
  assumes uniq: "unique_node_ids L"
    and nov: "\<And>i. vehicle_of L i \<noteq> Some v"
    and mark: "mark_nodes v ks L = (flag, L1)"
  shows "unmark_nodes v ks L1 = L"
proof (rule sym, rule lattice_eqI)
  show "distinct (map fst (nodes L))" using uniq by (simp add: unique_node_ids_def)
  show "map fst (nodes L) = map fst (nodes (unmark_nodes v ks L1))"
    using mark_nodes_frame [OF mark] unmark_nodes_frame [of v ks L1] by simp
  show "vehicle_to_nodes_table L = vehicle_to_nodes_table (unmark_nodes v ks L1)"
    using mark_nodes_frame [OF mark] unmark_nodes_frame [of v ks L1] by simp
  show "lattice.more L = lattice.more (unmark_nodes v ks L1)"
    using mark_nodes_frame [OF mark] unmark_nodes_frame [of v ks L1] by simp
  fix i
  show "node_at L i = node_at (unmark_nodes v ks L1) i"
  proof -
    show ?thesis
    proof (cases "node_at L1 i = node_at L i")
      case True
      then have "vehicle_of L1 i = vehicle_of L i" by (simp add: vehicle_of_def)
      then show ?thesis using True nov [of i] by (simp add: unmark_nodes_node_at)
    next
      case False
      with mark_nodes_node_at [OF mark, of i]
      have "i \<in> set ks" "vehicle_of L i = None"
          "node_at L1 i = map_option (\<lambda>nd. nd\<lparr>vehicle := Some v\<rparr>) (node_at L i)"
        by auto
      then show ?thesis
        by (cases "node_at L i")
          (auto simp: unmark_nodes_node_at vehicle_of_def)
    qed
  qed
qed

lemma add_then_clear_restores:
  assumes uniq: "unique_node_ids L"
    and mark: "mark_nodes v ks L = (False, L1)"
    and tab: "nodes_of_vehicle L v = None"
  shows "(clear_nodes ks (L1\<lparr>vehicle_to_nodes_table := AList.update v ks (vehicle_to_nodes_table L1)\<rparr>))
            \<lparr>vehicle_to_nodes_table :=
               AList.delete v (AList.update v ks (vehicle_to_nodes_table L1))\<rparr> = L"
    (is "?R = L")
proof (rule sym, rule lattice_eqI)
  let ?L2 = "L1\<lparr>vehicle_to_nodes_table := AList.update v ks (vehicle_to_nodes_table L1)\<rparr>"
  note fr = mark_nodes_frame [OF mark] clear_nodes_frame [of ks ?L2]
  have "v \<notin> fst ` set (vehicle_to_nodes_table L)"
    using tab by (simp add: nodes_of_vehicle_def map_of_eq_None_iff)
  then have del: "AList.delete v (AList.update v ks (vehicle_to_nodes_table L)) = vehicle_to_nodes_table L"
    by (simp add: delete_update_same delete_id)
  show "distinct (map fst (nodes L))" using uniq by (simp add: unique_node_ids_def)
  show "map fst (nodes L) = map fst (nodes ?R)" using fr by simp
  show "vehicle_to_nodes_table L = vehicle_to_nodes_table ?R" using fr del by simp
  show "lattice.more L = lattice.more ?R" using fr by simp
  fix i
  have n2: "node_at ?L2 i = node_at L1 i" by (simp add: node_at_def)
  have "node_at ?R i = node_at (clear_nodes ks ?L2) i" by (simp add: node_at_def)
  also have "\<dots> = (if i \<in> set ks then map_option (\<lambda>nd. nd\<lparr>vehicle := None\<rparr>) (node_at L1 i)
      else node_at L1 i)"
    by (simp add: clear_nodes_node_at n2)
  also have "\<dots> = node_at L i"
    using mark_nodes_no_collision [OF mark]
    by (cases "node_at L i") (auto simp: vehicle_of_def)
  finally show "node_at L i = node_at ?R i" by simp
qed

text \<open>
  Claim C7. Whenever \<^verbatim>\<open>addVehicle\<close> returns 1 on a lattice \<open>L\<close> (whose node ids are
  unique keys of the node table), the following \<^verbatim>\<open>deleteVehicle\<close> of the same id
  returns 1 and gives back exactly \<open>L\<close>: the same node table with the same occupants,
  and the same \<^verbatim>\<open>vehicle_to_nodes_table_\<close>.
\<close>

theorem addVehicle_then_deleteVehicle:
  assumes "unique_node_ids L"
    and "addVehicle closestNode L v waypoints = Some (1, L1)"
  shows "deleteVehicle L1 v = (1, L)"
proof -
  obtain rw mw hw where w: "waypoints = (rw, mw, hw)" by (cases waypoints) auto
  from assms(2) w have tab: "nodes_of_vehicle L v = None"
    by (auto simp: addVehicle_def split: if_splits)
  from assms(2) w tab obtain ks L0 where
    mark: "mark_nodes v ks L = (False, L0)" and
    L1: "L1 = L0\<lparr>vehicle_to_nodes_table := AList.update v ks (vehicle_to_nodes_table L0)\<rparr>"
    by (auto simp: addVehicle_def split: option.splits prod.splits if_splits)
  show ?thesis
    using add_then_clear_restores [OF assms(1) mark tab]
    by (simp add: deleteVehicle_def L1 nodes_of_vehicle_def update_conv')
qed

text \<open>
  Claim C10. For a vehicle id that is already registered, \<^verbatim>\<open>addVehicle\<close> returns 0
  and the lattice is unchanged, whatever the waypoints of the new pose are: no node
  and no table entry is modified.
\<close>

theorem addVehicle_already_registered:
  "nodes_of_vehicle L v \<noteq> None \<Longrightarrow> addVehicle closestNode L v waypoints = Some (0, L)"
  by (cases waypoints) (simp add: addVehicle_def)

subsection \<open>The walks of addVehicle end on a lattice with monotone distances\<close>

lemma length_filter_strict_mono:
  assumes "\<And>x. x \<in> set xs \<Longrightarrow> P x \<Longrightarrow> Q x"
    and "y \<in> set xs" and "Q y" and "\<not> P y"
  shows "length (filter P xs) < length (filter Q xs)"
  using assms
proof (induction xs)
  case Nil
  then show ?case by simp
next
  case (Cons x xs)
  have le: "length (filter P xs) \<le> length (filter Q xs)"
  proof -
    have "filter P xs = filter P (filter Q xs)"
      using Cons.prems(1) by (auto simp: filter_filter intro: filter_cong)
    then show ?thesis by (metis length_filter_le)
  qed
  show ?case
  proof (cases "y = x")
    case True
    then show ?thesis using le Cons.prems by simp
  next
    case False
    then have "y \<in> set xs" using Cons.prems(2) by simp
    then have "length (filter P xs) < length (filter Q xs)"
      using Cons.IH Cons.prems by simp
    then show ?thesis using Cons.prems(1) [of x] by auto
  qed
qed

lemma front_of_ahead:
  assumes "front_increasing L" and "front_of L n = Some f"
  shows "ahead L f < ahead L n"
proof -
  from assms(2) obtain nd where nd: "node_at L n = Some nd"
    by (auto simp: front_of_def split: option.splits)
  from assms(2) nd obtain fn where fn: "node_at L f = Some fn"
    by (auto simp: front_of_def lock_def split: option.splits)
  have inn: "(n, nd) \<in> set (nodes L)" and inf: "(f, fn) \<in> set (nodes L)"
    using nd fn by (auto simp: node_at_def map_of_SomeD)
  from assms(1) inn have "case front_of L n of None \<Rightarrow> True
      | Some f \<Rightarrow> (case node_at L f of None \<Rightarrow> True | Some fn \<Rightarrow> distance nd < distance fn)"
    unfolding front_increasing_def list_all_iff by fastforce
  then have lt: "distance nd < distance fn" using assms(2) fn by simp
  have "length (filter (\<lambda>(j, x). distance fn < distance x) (nodes L))
          < length (filter (\<lambda>(j, x). distance nd < distance x) (nodes L))"
    by (rule length_filter_strict_mono [where y = "(f, fn)"]) (use lt inf in auto)
  then show ?thesis by (simp add: ahead_def nd fn)
qed

lemma back_of_behind:
  assumes "back_decreasing L" and "back_of L n = Some b"
  shows "behind L b < behind L n"
proof -
  from assms(2) obtain nd where nd: "node_at L n = Some nd"
    by (auto simp: back_of_def split: option.splits)
  from assms(2) nd obtain bn where bn: "node_at L b = Some bn"
    by (auto simp: back_of_def lock_def split: option.splits)
  have inn: "(n, nd) \<in> set (nodes L)" and inb: "(b, bn) \<in> set (nodes L)"
    using nd bn by (auto simp: node_at_def map_of_SomeD)
  from assms(1) inn have "case back_of L n of None \<Rightarrow> True
      | Some b \<Rightarrow> (case node_at L b of None \<Rightarrow> True | Some bn \<Rightarrow> distance bn < distance nd)"
    unfolding back_decreasing_def list_all_iff by fastforce
  then have lt: "distance bn < distance nd" using assms(2) bn by simp
  have "length (filter (\<lambda>(j, x). distance x < distance bn) (nodes L))
          < length (filter (\<lambda>(j, x). distance x < distance nd) (nodes L))"
    by (rule length_filter_strict_mono [where y = "(b, bn)"]) (use lt inb in auto)
  then show ?thesis by (simp add: behind_def nd bn)
qed

lemma front_of_alive: "front_of L n = Some f \<Longrightarrow> node_at L f \<noteq> None"
  by (auto simp: front_of_def lock_def split: option.splits)

lemma back_of_alive: "back_of L n = Some b \<Longrightarrow> node_at L b \<noteq> None"
  by (auto simp: back_of_def lock_def split: option.splits)

lemma rear_node_forward_returns:
  assumes "front_increasing L"
  shows "node_at L n \<noteq> None \<Longrightarrow> \<forall>k\<in>set acc. node_at L k \<noteq> None \<Longrightarrow>
     \<exists>ns. rear_node_forward L m n acc = Some ns \<and> (\<forall>k\<in>set ns. node_at L k \<noteq> None)"
proof (induction "ahead L n" arbitrary: n acc rule: less_induct)
  case less
  show ?case
  proof (cases "front_of L n")
    case None
    then show ?thesis using less.prems by (subst rear_node_forward.simps) simp
  next
    case (Some f)
    have "ahead L f < ahead L n" using front_of_ahead [OF assms Some] .
    moreover have "node_at L f \<noteq> None" using front_of_alive [OF Some] .
    moreover have "\<forall>k\<in>set (acc @ [n]). node_at L k \<noteq> None" using less.prems by simp
    ultimately obtain ns where "rear_node_forward L m f (acc @ [n]) = Some ns"
      "\<forall>k\<in>set ns. node_at L k \<noteq> None"
      using less.hyps by blast
    then show ?thesis using Some less.prems by (subst rear_node_forward.simps) simp
  qed
qed

lemma head_node_backward_returns:
  assumes "back_decreasing L"
  shows "node_at L n \<noteq> None \<Longrightarrow> \<forall>k\<in>set acc. node_at L k \<noteq> None \<Longrightarrow>
     \<exists>ns. head_node_backward L m n acc = Some ns \<and> (\<forall>k\<in>set ns. node_at L k \<noteq> None)"
proof (induction "behind L n" arbitrary: n acc rule: less_induct)
  case less
  show ?case
  proof (cases "back_of L n")
    case None
    then show ?thesis using less.prems by (subst head_node_backward.simps) simp
  next
    case (Some b)
    have "behind L b < behind L n" using back_of_behind [OF assms Some] .
    moreover have "node_at L b \<noteq> None" using back_of_alive [OF Some] .
    moreover have "\<forall>k\<in>set (acc @ [n]). node_at L k \<noteq> None" using less.prems by simp
    ultimately obtain ns where "head_node_backward L m b (acc @ [n]) = Some ns"
      "\<forall>k\<in>set ns. node_at L k \<noteq> None"
      using less.hyps by blast
    then show ?thesis using Some less.prems by (subst head_node_backward.simps) simp
  qed
qed

lemma collect_nodes_returns:
  assumes "front_increasing L" and "back_decreasing L"
    and "node_at L r \<noteq> None" and "node_at L m \<noteq> None" and "node_at L h \<noteq> None"
  shows "\<exists>ns. collect_nodes L r m h = Some ns \<and> (\<forall>k\<in>set ns. node_at L k \<noteq> None)"
proof -
  obtain rf where rf: "rear_node_forward L m r [] = Some rf" "\<forall>k\<in>set rf. node_at L k \<noteq> None"
    using rear_node_forward_returns [OF assms(1) assms(3), of "[]" m] by auto
  obtain hb where hb: "head_node_backward L m h [] = Some hb" "\<forall>k\<in>set hb. node_at L k \<noteq> None"
    using head_node_backward_returns [OF assms(2) assms(5), of "[]" m] by auto
  show ?thesis using rf hb assms(4) by (auto simp: collect_nodes_def)
qed

lemma lock_eq_Some: "lock L p = Some i \<Longrightarrow> node_at L i \<noteq> None"
  by (auto simp: lock_def split: option.splits)

text \<open>
  The collision loop breaks exactly when a node of the list carries a vehicle already
  or comes a second time in the list, where it carries the vehicle that is being added.
\<close>

lemma mark_nodes_collision:
  assumes "\<forall>k\<in>set ks. node_at L k \<noteq> None"
  shows "fst (mark_nodes v ks L) = ((\<exists>k\<in>set ks. vehicle_of L k \<noteq> None) \<or> \<not> distinct ks)"
  using assms
proof (induction ks arbitrary: L)
  case Nil
  then show ?case by simp
next
  case (Cons k ks)
  show ?case
  proof (cases "vehicle_of L k \<noteq> None")
    case True
    then show ?thesis by simp
  next
    case False
    let ?L = "set_vehicle L k (Some v)"
    have alive: "\<forall>j\<in>set ks. node_at ?L j \<noteq> None"
      using Cons.prems by (auto simp: node_at_set_vehicle)
    have k: "node_at L k \<noteq> None" using Cons.prems by simp
    have occ: "(vehicle_of ?L j \<noteq> None) = (j = k \<or> vehicle_of L j \<noteq> None)" for j
      using k by (auto simp: vehicle_of_set_vehicle)
    have "fst (mark_nodes v (k # ks) L) = fst (mark_nodes v ks ?L)" using False by simp
    also have "\<dots> = ((\<exists>j\<in>set ks. vehicle_of ?L j \<noteq> None) \<or> \<not> distinct ks)"
      by (rule Cons.IH [OF alive])
    also have "\<dots> = ((k \<in> set ks \<or> (\<exists>j\<in>set ks. vehicle_of L j \<noteq> None)) \<or> \<not> distinct ks)"
      unfolding occ by blast
    also have "\<dots> = ((\<exists>j\<in>set (k # ks). vehicle_of L j \<noteq> None) \<or> \<not> distinct (k # ks))"
      using False by auto
    finally show ?thesis .
  qed
qed

text \<open>
  Claim C4, amended. On a traffic lattice (unique node ids, every occupied node listed
  under its occupant, distances growing along front links and falling along back links,
  so that both walks end) \<^verbatim>\<open>addVehicle\<close> returns, and its code is 1, 0 or -1. The code
  is 0 exactly when the id is registered already or the rear, mid or head waypoint has
  no node; it is 1 exactly when the vehicle was not registered and is registered by the
  call; with every other code the lattice, node occupancies and table, is exactly what
  it was before the call. For a vehicle that is not registered yet and whose three
  waypoints have nodes, the list of the nodes it would occupy is collected; the code is
  -1 exactly when a node of the list carries another vehicle or comes twice in the list;
  and with the code 1 the table maps the vehicle to the list, every node of the list
  carries the vehicle and nothing else has changed.
\<close>

theorem addVehicle_return_codes:
  assumes uniq: "unique_node_ids L" and cons: "occupancy_consistent L"
    and fi: "front_increasing L" and bd: "back_decreasing L"
  shows "\<exists>rc L'. addVehicle closestNode L v (rw, mw, hw) = Some (rc, L') \<and>
     (rc = 1 \<or> rc = 0 \<or> rc = - 1) \<and>
     ((rc = 0) = (nodes_of_vehicle L v \<noteq> None \<or> lock L (closestNode L rw) = None \<or>
                  lock L (closestNode L mw) = None \<or> lock L (closestNode L hw) = None)) \<and>
     ((rc = 1) = (nodes_of_vehicle L v = None \<and> nodes_of_vehicle L' v \<noteq> None)) \<and>
     (rc \<noteq> 1 \<longrightarrow> L' = L) \<and>
     (nodes_of_vehicle L v = None \<longrightarrow>
        (\<forall>r m h. lock L (closestNode L rw) = Some r \<and> lock L (closestNode L mw) = Some m \<and>
           lock L (closestNode L hw) = Some h \<longrightarrow>
           (\<exists>ns. collect_nodes L r m h = Some ns \<and>
              ((rc = - 1) = ((\<exists>k\<in>set ns. \<exists>u. vehicle_of L k = Some u \<and> u \<noteq> v) \<or>
                             \<not> distinct ns)) \<and>
              (rc = 1 \<longrightarrow>
                 vehicle_to_nodes_table L' = AList.update v ns (vehicle_to_nodes_table L) \<and>
                 (\<forall>i. node_at L' i =
                    (if i \<in> set ns
                     then map_option (\<lambda>nd. nd\<lparr>vehicle := Some v\<rparr>) (node_at L i)
                     else node_at L i))))))"
proof (cases "nodes_of_vehicle L v \<noteq> None")
  case True
  then have "addVehicle closestNode L v (rw, mw, hw) = Some (0, L)"
    by (simp add: addVehicle_def)
  then show ?thesis using True by auto
next
  case False
  then have tab: "nodes_of_vehicle L v = None" by simp
  show ?thesis
  proof (cases "\<exists>r m h. lock L (closestNode L rw) = Some r \<and> lock L (closestNode L mw) = Some m \<and>
           lock L (closestNode L hw) = Some h")
    case False
    then have "addVehicle closestNode L v (rw, mw, hw) = Some (0, L)"
      using tab by (auto simp: addVehicle_def split: option.splits)
    moreover have "lock L (closestNode L rw) = None \<or> lock L (closestNode L mw) = None \<or>
        lock L (closestNode L hw) = None"
      using False by auto
    ultimately show ?thesis using tab by auto
  next
    case True
    then obtain r m h where snap: "lock L (closestNode L rw) = Some r"
      "lock L (closestNode L mw) = Some m" "lock L (closestNode L hw) = Some h" by blast
    obtain ns where ns: "collect_nodes L r m h = Some ns" "\<forall>k\<in>set ns. node_at L k \<noteq> None"
      using collect_nodes_returns [OF fi bd lock_eq_Some [OF snap(1)] lock_eq_Some [OF snap(2)]
          lock_eq_Some [OF snap(3)]] by auto
    obtain flag L1 where mark: "mark_nodes v ns L = (flag, L1)" by (cases "mark_nodes v ns L")
    have nov: "vehicle_of L i \<noteq> Some v" for i
      using occupant_registered [OF cons, of i v] tab by auto
    have "flag = ((\<exists>k\<in>set ns. vehicle_of L k \<noteq> None) \<or> \<not> distinct ns)"
      using mark_nodes_collision [OF ns(2), of v] mark by simp
    moreover have "(\<exists>k\<in>set ns. vehicle_of L k \<noteq> None) =
        (\<exists>k\<in>set ns. \<exists>u. vehicle_of L k = Some u \<and> u \<noteq> v)"
    proof (intro iffI)
      assume "\<exists>k\<in>set ns. vehicle_of L k \<noteq> None"
      then obtain k u where k: "k \<in> set ns" "vehicle_of L k = Some u" by auto
      then have "u \<noteq> v" using nov [of k] by auto
      then show "\<exists>k\<in>set ns. \<exists>u. vehicle_of L k = Some u \<and> u \<noteq> v" using k by blast
    next
      assume "\<exists>k\<in>set ns. \<exists>u. vehicle_of L k = Some u \<and> u \<noteq> v"
      then show "\<exists>k\<in>set ns. vehicle_of L k \<noteq> None" by auto
    qed
    ultimately have flag: "flag = ((\<exists>k\<in>set ns. \<exists>u. vehicle_of L k = Some u \<and> u \<noteq> v) \<or>
        \<not> distinct ns)" by simp
    show ?thesis
    proof (cases flag)
      case True
      have "addVehicle closestNode L v (rw, mw, hw) = Some (- 1, unmark_nodes v ns L1)"
        using tab snap ns mark True by (simp add: addVehicle_def)
      moreover have "unmark_nodes v ns L1 = L"
        using rollback_restores [OF uniq nov mark] .
      ultimately have add: "addVehicle closestNode L v (rw, mw, hw) = Some (- 1, L)" by simp
      show ?thesis
      proof (intro exI conjI)
        show "addVehicle closestNode L v (rw, mw, hw) = Some (- 1, L)" by (rule add)
        show "(- 1 :: int) = 1 \<or> (- 1 :: int) = 0 \<or> (- 1 :: int) = - 1" by simp
        show "((- 1 :: int) = 0) = (nodes_of_vehicle L v \<noteq> None \<or> lock L (closestNode L rw) = None \<or>
                  lock L (closestNode L mw) = None \<or> lock L (closestNode L hw) = None)"
          using tab snap by simp
        show "((- 1 :: int) = 1) = (nodes_of_vehicle L v = None \<and> nodes_of_vehicle L v \<noteq> None)"
          by auto
        show "(- 1 :: int) \<noteq> 1 \<longrightarrow> L = L" by simp
        show "nodes_of_vehicle L v = None \<longrightarrow>
          (\<forall>r m h. lock L (closestNode L rw) = Some r \<and> lock L (closestNode L mw) = Some m \<and>
             lock L (closestNode L hw) = Some h \<longrightarrow>
             (\<exists>ns. collect_nodes L r m h = Some ns \<and>
                (((- 1 :: int) = - 1) = ((\<exists>k\<in>set ns. \<exists>u. vehicle_of L k = Some u \<and> u \<noteq> v) \<or>
                               \<not> distinct ns)) \<and>
                ((- 1 :: int) = 1 \<longrightarrow>
                   vehicle_to_nodes_table L = AList.update v ns (vehicle_to_nodes_table L) \<and>
                   (\<forall>i. node_at L i =
                      (if i \<in> set ns
                       then map_option (\<lambda>nd. nd\<lparr>vehicle := Some v\<rparr>) (node_at L i)
                       else node_at L i)))))"
          using snap ns(1) flag True by simp
      qed
    next
      case False
      let ?L' = "L1\<lparr>vehicle_to_nodes_table := AList.update v ns (vehicle_to_nodes_table L1)\<rparr>"
      have add: "addVehicle closestNode L v (rw, mw, hw) = Some (1, ?L')"
        using tab snap ns mark False by (simp add: addVehicle_def)
      have mk: "mark_nodes v ns L = (False, L1)" using mark False by simp
      note ok = mark_nodes_no_collision [OF mk]
      have tbl: "vehicle_to_nodes_table ?L' = AList.update v ns (vehicle_to_nodes_table L)"
        using mark_nodes_frame [OF mk] by simp
      have nd: "node_at ?L' i =
                    (if i \<in> set ns
                     then map_option (\<lambda>nd. nd\<lparr>vehicle := Some v\<rparr>) (node_at L i)
                     else node_at L i)" for i
        using ok by (simp add: node_at_def)
      have reg: "nodes_of_vehicle ?L' v = Some ns"
        by (simp add: nodes_of_vehicle_def update_conv')
      show ?thesis
      proof (intro exI conjI)
        show "addVehicle closestNode L v (rw, mw, hw) = Some (1, ?L')" by (rule add)
        show "(1 :: int) = 1 \<or> (1 :: int) = 0 \<or> (1 :: int) = - 1" by simp
        show "((1 :: int) = 0) = (nodes_of_vehicle L v \<noteq> None \<or> lock L (closestNode L rw) = None \<or>
                  lock L (closestNode L mw) = None \<or> lock L (closestNode L hw) = None)"
          using tab snap by simp
        show "((1 :: int) = 1) = (nodes_of_vehicle L v = None \<and> nodes_of_vehicle ?L' v \<noteq> None)"
          using tab reg by simp
        show "(1 :: int) \<noteq> 1 \<longrightarrow> ?L' = L" by simp
        show "nodes_of_vehicle L v = None \<longrightarrow>
          (\<forall>r m h. lock L (closestNode L rw) = Some r \<and> lock L (closestNode L mw) = Some m \<and>
             lock L (closestNode L hw) = Some h \<longrightarrow>
             (\<exists>ns. collect_nodes L r m h = Some ns \<and>
                (((1 :: int) = - 1) = ((\<exists>k\<in>set ns. \<exists>u. vehicle_of L k = Some u \<and> u \<noteq> v) \<or>
                               \<not> distinct ns)) \<and>
                ((1 :: int) = 1 \<longrightarrow>
                   vehicle_to_nodes_table ?L' = AList.update v ns (vehicle_to_nodes_table L) \<and>
                   (\<forall>i. node_at ?L' i =
                      (if i \<in> set ns
                       then map_option (\<lambda>nd. nd\<lparr>vehicle := Some v\<rparr>) (node_at L i)
                       else node_at L i)))))"
          using snap ns(1) flag False tbl nd by simp
      qed
    qed
  qed
qed

subsection \<open>The example lattice\<close>

lemmas example_simps = example_lattice_def example_closestNode_def node_at_def lock_def
  nodes_of_vehicle_def
  front_of_def back_of_def left_of_def right_of_def vehicle_of_def set_vehicle_def

lemma example_wf:
  "unique_node_ids example_lattice" "occupancy_consistent example_lattice"
  "front_increasing example_lattice" "back_decreasing example_lattice"
  by (simp_all add: unique_node_ids_def occupancy_consistent_def front_increasing_def
        back_decreasing_def example_simps)

lemma example_collect_lane_B: "collect_nodes example_lattice 10 11 12 = Some [10, 11, 12]"
  by (simp add: collect_nodes_def rear_node_forward.simps head_node_backward.simps example_simps)

lemma example_collect_lane_A: "collect_nodes example_lattice 1 2 3 = Some [1, 2, 3]"
  by (simp add: collect_nodes_def rear_node_forward.simps head_node_backward.simps example_simps)

lemma example_snap:
  "lock example_lattice (example_closestNode example_lattice w) =
     (if w \<in> {0, 1, 2, 3, 4, 10, 11, 12, 13, 14} then Some w else None)"
  by (simp add: example_simps)

lemma example_table:
  "nodes_of_vehicle example_lattice u =
     (if u = 5 then Some [0] else if u = 7 then Some [2, 3] else None)"
  by (simp add: example_lattice_def nodes_of_vehicle_def)

lemma example_mark_lane_B: "\<not> fst (mark_nodes 8 [10, 11, 12] example_lattice)"
  by (simp add: example_simps)

lemma example_mark_lane_A: "fst (mark_nodes 8 [1, 2, 3] example_lattice)"
  by (simp add: example_simps)

lemma example_add_lane_B:
  "addVehicle example_closestNode example_lattice 8 (10, 11, 12) =
     Some (1, (snd (mark_nodes 8 [10, 11, 12] example_lattice))
                \<lparr>vehicle_to_nodes_table :=
                   AList.update 8 [10, 11, 12]
                     (vehicle_to_nodes_table (snd (mark_nodes 8 [10, 11, 12] example_lattice)))\<rparr>)"
  using example_mark_lane_B
  by (simp add: addVehicle_def example_snap example_table example_collect_lane_B case_prod_beta
        del: mark_nodes.simps)

text \<open>Vehicle 8 is added on the free lane of the example lattice and deleted again.\<close>

theorem addVehicle_then_deleteVehicle_witness:
  "deleteVehicle (snd (the (addVehicle example_closestNode example_lattice 8 (10, 11, 12)))) 8
     = (1, example_lattice)"
  using addVehicle_then_deleteVehicle [OF example_wf(1) example_add_lane_B]
  by (simp add: example_add_lane_B del: mark_nodes.simps)

text \<open>Vehicle 7 is registered on the example lattice already.\<close>

theorem addVehicle_already_registered_witness:
  "addVehicle example_closestNode example_lattice 7 (10, 11, 12) = Some (0, example_lattice)"
  using addVehicle_already_registered [of example_lattice 7 example_closestNode "(10, 11, 12)"]
  by (simp add: example_table)

lemma example_collect_overlap:
  "collect_nodes example_lattice 11 12 11 = Some [11, 12, 10, 11]"
  by (simp add: collect_nodes_def rear_node_forward.simps head_node_backward.simps example_simps)

lemma example_collect_node_0: "collect_nodes example_lattice 0 0 0 = Some [0]"
  by (simp add: collect_nodes_def rear_node_forward.simps head_node_backward.simps example_simps)

text \<open>
  Claim C4 as stated fails for a vehicle that is registered already. Vehicle 7 is on the
  nodes 2 and 3 of the example lattice; its three waypoints are moved to node 0, which
  carries vehicle 5. The claim asks for -1; the call returns 0 (and leaves vehicle 7
  where it was).
\<close>

theorem addVehicle_registered_collision:
  "lock example_lattice (example_closestNode example_lattice 0) = Some 0 \<and>
   collect_nodes example_lattice 0 0 0 = Some [0] \<and>
   vehicle_of example_lattice 0 = Some 5 \<and>
   addVehicle example_closestNode example_lattice 7 (0, 0, 0) = Some (0, example_lattice) \<and>
   addVehicle example_closestNode example_lattice 7 (0, 0, 0) \<noteq> Some (- 1, example_lattice)"
  by (simp add: example_snap example_collect_node_0 addVehicle_def example_table)
    (simp add: example_simps)

text \<open>
  Vehicle 8 on the example lattice, four times. Over the free nodes 10, 11, 12 it is
  registered, with the code 1. With a head waypoint that has no node the code is 0.
  Over the nodes 1, 2, 3 the code is -1: node 1 is claimed, node 2 carries vehicle 7,
  and the claim on node 1 is rolled back. With the rear and the head waypoint on node 11
  and the mid waypoint on node 12 the list of the nodes is 11, 12, 10, 11: all of them are
  free, node 11 comes twice, and the code is -1 as well.
\<close>

theorem addVehicle_return_codes_witness:
  "(\<exists>L'. addVehicle example_closestNode example_lattice 8 (10, 11, 12) = Some (1, L') \<and>
         nodes_of_vehicle L' 8 = Some [10, 11, 12] \<and> vehicle_of L' 11 = Some 8) \<and>
   addVehicle example_closestNode example_lattice 8 (1, 2, 99) = Some (0, example_lattice) \<and>
   addVehicle example_closestNode example_lattice 8 (1, 2, 3) = Some (- 1, example_lattice) \<and>
   addVehicle example_closestNode example_lattice 8 (11, 12, 11) = Some (- 1, example_lattice)"
proof -
  have free: "nodes_of_vehicle example_lattice 8 = None"
    by (simp add: example_table)
  have snap: "lock example_lattice (example_closestNode example_lattice w) =
      (if w \<in> {0, 1, 2, 3, 4, 10, 11, 12, 13, 14} then Some w else None)" for w
    by (rule example_snap)
  have a: "\<exists>L'. addVehicle example_closestNode example_lattice 8 (10, 11, 12) = Some (1, L') \<and>
         nodes_of_vehicle L' 8 = Some [10, 11, 12] \<and> vehicle_of L' 11 = Some 8"
  proof -
    from addVehicle_return_codes [OF example_wf, of example_closestNode 8 10 11 12]
    obtain rc L' where
      res: "addVehicle example_closestNode example_lattice 8 (10, 11, 12) = Some (rc, L')" and
      codes: "rc = 1 \<or> rc = 0 \<or> rc = - 1" and
      zero: "(rc = 0) = (nodes_of_vehicle example_lattice 8 \<noteq> None \<or>
                  lock example_lattice (example_closestNode example_lattice 10) = None \<or>
                  lock example_lattice (example_closestNode example_lattice 11) = None \<or>
                  lock example_lattice (example_closestNode example_lattice 12) = None)" and
      coll: "nodes_of_vehicle example_lattice 8 = None \<longrightarrow>
        (\<forall>r m h. lock example_lattice (example_closestNode example_lattice 10) = Some r \<and>
           lock example_lattice (example_closestNode example_lattice 11) = Some m \<and>
           lock example_lattice (example_closestNode example_lattice 12) = Some h \<longrightarrow>
           (\<exists>ns. collect_nodes example_lattice r m h = Some ns \<and>
              ((rc = - 1) = ((\<exists>k\<in>set ns. \<exists>u. vehicle_of example_lattice k = Some u \<and> u \<noteq> 8) \<or>
                             \<not> distinct ns)) \<and>
              (rc = 1 \<longrightarrow>
                 vehicle_to_nodes_table L' = AList.update 8 ns (vehicle_to_nodes_table example_lattice) \<and>
                 (\<forall>i. node_at L' i =
                    (if i \<in> set ns
                     then map_option (\<lambda>nd. nd\<lparr>vehicle := Some 8\<rparr>) (node_at example_lattice i)
                     else node_at example_lattice i)))))"
      by (elim exE conjE) (rule that)
    from coll free snap [of 10] snap [of 11] snap [of 12] example_collect_lane_B
    have minus: "(rc = - 1) = ((\<exists>k\<in>set [10, 11, 12]. \<exists>u. vehicle_of example_lattice k = Some u \<and> u \<noteq> 8) \<or>
                             \<not> distinct [10 :: nat, 11, 12])"
      and one: "rc = 1 \<longrightarrow>
                 vehicle_to_nodes_table L' = AList.update 8 [10, 11, 12] (vehicle_to_nodes_table example_lattice) \<and>
                 (\<forall>i. node_at L' i =
                    (if i \<in> set [10, 11, 12]
                     then map_option (\<lambda>nd. nd\<lparr>vehicle := Some 8\<rparr>) (node_at example_lattice i)
                     else node_at example_lattice i))"
      by simp_all
    have "rc \<noteq> - 1" using minus by (simp add: example_simps)
    moreover have "rc \<noteq> 0" using zero free by (simp add: snap)
    ultimately have rc: "rc = 1" using codes by simp
    then have "nodes_of_vehicle L' 8 = Some [10, 11, 12]" "vehicle_of L' 11 = Some 8"
      using one by (simp_all add: nodes_of_vehicle_def update_conv' vehicle_of_def)
        (simp add: example_simps)
    then show ?thesis using res rc by simp
  qed
  have b: "addVehicle example_closestNode example_lattice 8 (1, 2, 99) = Some (0, example_lattice)"
  proof -
    from addVehicle_return_codes [OF example_wf, of example_closestNode 8 1 2 99]
    obtain rc L' where
      res: "addVehicle example_closestNode example_lattice 8 (1, 2, 99) = Some (rc, L')" and
      zero: "(rc = 0) = (nodes_of_vehicle example_lattice 8 \<noteq> None \<or>
                  lock example_lattice (example_closestNode example_lattice 1) = None \<or>
                  lock example_lattice (example_closestNode example_lattice 2) = None \<or>
                  lock example_lattice (example_closestNode example_lattice 99) = None)" and
      same: "rc \<noteq> 1 \<longrightarrow> L' = example_lattice"
      by (elim exE conjE) (rule that)
    have "rc = 0" using zero by (simp add: snap)
    then show ?thesis using res same by simp
  qed
  have minus_one: "addVehicle example_closestNode example_lattice 8 (rw, mw, hw)
        = Some (- 1, example_lattice)"
    if w: "rw \<in> {0, 1, 2, 3, 4, 10, 11, 12, 13, 14}" "mw \<in> {0, 1, 2, 3, 4, 10, 11, 12, 13, 14}"
        "hw \<in> {0, 1, 2, 3, 4, 10, 11, 12, 13, 14}"
      and c: "collect_nodes example_lattice rw mw hw = Some ns"
      and o: "(\<exists>k\<in>set ns. \<exists>u. vehicle_of example_lattice k = Some u \<and> u \<noteq> 8) \<or> \<not> distinct ns"
    for rw mw hw ns
  proof -
    from addVehicle_return_codes [OF example_wf, of example_closestNode 8 rw mw hw]
    obtain rc L' where
      res: "addVehicle example_closestNode example_lattice 8 (rw, mw, hw) = Some (rc, L')" and
      same: "rc \<noteq> 1 \<longrightarrow> L' = example_lattice" and
      coll: "nodes_of_vehicle example_lattice 8 = None \<longrightarrow>
        (\<forall>r m h. lock example_lattice (example_closestNode example_lattice rw) = Some r \<and>
           lock example_lattice (example_closestNode example_lattice mw) = Some m \<and>
           lock example_lattice (example_closestNode example_lattice hw) = Some h \<longrightarrow>
           (\<exists>ns. collect_nodes example_lattice r m h = Some ns \<and>
              ((rc = - 1) = ((\<exists>k\<in>set ns. \<exists>u. vehicle_of example_lattice k = Some u \<and> u \<noteq> 8) \<or>
                             \<not> distinct ns)) \<and>
              (rc = 1 \<longrightarrow>
                 vehicle_to_nodes_table L' = AList.update 8 ns (vehicle_to_nodes_table example_lattice) \<and>
                 (\<forall>i. node_at L' i =
                    (if i \<in> set ns
                     then map_option (\<lambda>nd. nd\<lparr>vehicle := Some 8\<rparr>) (node_at example_lattice i)
                     else node_at example_lattice i)))))"
      by (elim exE conjE) (rule that)
    have s: "lock example_lattice (example_closestNode example_lattice rw) = Some rw"
      "lock example_lattice (example_closestNode example_lattice mw) = Some mw"
      "lock example_lattice (example_closestNode example_lattice hw) = Some hw"
      using w by (simp_all only: snap if_True)
    from coll free s c
    have "(rc = - 1) = ((\<exists>k\<in>set ns. \<exists>u. vehicle_of example_lattice k = Some u \<and> u \<noteq> 8) \<or>
                             \<not> distinct ns)"
      by simp
    then have "rc = - 1" using o by simp
    then show ?thesis using res same by simp
  qed
  have c: "addVehicle example_closestNode example_lattice 8 (1, 2, 3) = Some (- 1, example_lattice)"
    by (rule minus_one [OF _ _ _ example_collect_lane_A]) (simp_all add: example_simps)
  have d: "addVehicle example_closestNode example_lattice 8 (11, 12, 11) = Some (- 1, example_lattice)"
    by (rule minus_one [OF _ _ _ example_collect_overlap]) simp_all
  show ?thesis using a b c d by blast
qed

subsection \<open>isChangingLane\<close>

lemma front_steps_0 [simp]: "front_steps L 0 n = Some n"
  by (simp add: front_steps_def)

lemma funpow_front_None:
  "((\<lambda>p. case p of None \<Rightarrow> None | Some i \<Rightarrow> front_of L i) ^^ k) None = None"
  by (induction k) auto

lemma front_steps_Suc:
  "front_steps L (Suc k) n =
     (case front_of L n of None \<Rightarrow> None | Some f \<Rightarrow> front_steps L k f)"
  unfolding front_steps_def
  by (simp add: funpow_swap1 funpow_front_None split: option.splits)

lemma walk_front_front_steps:
  "walk_front L n i k =
     (case front_steps L k n of
        Some F \<Rightarrow> Inr F
      | None \<Rightarrow> walk_front L n i k) \<and>
   (front_steps L k n = None \<longrightarrow> (\<exists>j. walk_front L n i k = Inl (CannotFindFrontNode j)))"
proof (induction k arbitrary: n i)
  case 0
  then show ?case by simp
next
  case (Suc k)
  show ?case
  proof (cases "front_of L n")
    case None
    then show ?thesis by (simp add: front_steps_Suc)
  next
    case (Some f)
    then show ?thesis using Suc [of f "Suc i"]
      by (simp add: front_steps_Suc split: option.splits)
  qed
qed

text \<open>
  Claim C6. For a registered vehicle whose rear node \<open>r\<close> and head node \<open>h\<close> are nodes
  of the lattice, \<^verbatim>\<open>isChangingLane\<close> takes as many front steps from \<open>r\<close> as the
  vehicle's node list has entries. When they lead to a node \<open>F\<close>, the result is 0 if
  \<open>F\<close> is \<open>h\<close>, else -1 if the left neighbour of \<open>F\<close> is \<open>h\<close>, else 1 if the right
  neighbour of \<open>F\<close> is \<open>h\<close>, and a topology-mismatch error otherwise; when a front link
  is missing on the way, the result is a topology-mismatch error.
\<close>

theorem isChangingLane_walk:
  assumes "nodes_of_vehicle L v = Some ns"
    and "vehicleRearNode L v = Some r" and "vehicleHeadNode L v = Some h"
  shows "case front_steps L (length ns) r of
           Some F \<Rightarrow>
             (F = h \<longrightarrow> isChangingLane L v = Inr 0) \<and>
             (F \<noteq> h \<and> left_of L F = Some h \<longrightarrow> isChangingLane L v = Inr (- 1)) \<and>
             (F \<noteq> h \<and> left_of L F \<noteq> Some h \<and> right_of L F = Some h
                \<longrightarrow> isChangingLane L v = Inr 1) \<and>
             (F \<noteq> h \<and> left_of L F \<noteq> Some h \<and> right_of L F \<noteq> Some h
                \<longrightarrow> (\<exists>e. isChangingLane L v = Inl e \<and> topology_mismatch e))
         | None \<Rightarrow> (\<exists>e. isChangingLane L v = Inl e \<and> topology_mismatch e)"
proof (cases "front_steps L (length ns) r")
  case None
  then obtain j where "walk_front L r 0 (length ns) = Inl (CannotFindFrontNode j)"
    using walk_front_front_steps [of L r 0 "length ns"] by blast
  then show ?thesis using None assms by (simp add: isChangingLane_def)
next
  case (Some F)
  then have "walk_front L r 0 (length ns) = Inr F"
    using walk_front_front_steps [of L r 0 "length ns"] by simp
  then show ?thesis using Some assms by (simp add: isChangingLane_def)
qed

text \<open>
  Vehicle 7 of the example lattice is on the nodes 2 and 3: two front steps from node 2
  end on node 4, which is neither the head node 3 nor a lane neighbour of it.
\<close>

theorem isChangingLane_walk_witness:
  "\<exists>e. isChangingLane example_lattice 7 = Inl e \<and> topology_mismatch e"
proof -
  have steps: "front_steps example_lattice (length [2, 3 :: nat]) 2 = Some 4"
    by (simp add: front_steps_Suc example_simps)
  have "nodes_of_vehicle example_lattice 7 = Some [2, 3]"
    "vehicleRearNode example_lattice 7 = Some 2" "vehicleHeadNode example_lattice 7 = Some 3"
    by (simp_all add: vehicleRearNode_def vehicleHeadNode_def example_simps)
  from isChangingLane_walk [OF this] show ?thesis
    unfolding steps by (simp add: example_simps)
qed

section \<open>Properties of moveTrafficForward\<close>

subsection \<open>Clearing the vehicles\<close>






subsection \<open>What addVehicle leaves unchanged\<close>




lemma without_vehicles_set_vehicle [simp]:
  "without_vehicles (set_vehicle L k v) = without_vehicles L"
  by (simp add: without_vehicles_def set_vehicle_def case_prod_beta comp_def)

lemma without_vehicles_table [simp]:
  "without_vehicles (L\<lparr>vehicle_to_nodes_table := t\<rparr>) = without_vehicles L"
  by (simp add: without_vehicles_def)


lemma without_vehicles_unmark [simp]:
  "without_vehicles (unmark_nodes v ks L) = without_vehicles L"
  by (induction ks arbitrary: L) auto







subsection \<open>registerVehicles\<close>






subsection \<open>moveTrafficForward\<close>

lemma without_vehicles_clear_nodes [simp]:
  "without_vehicles (clear_nodes ks L) = without_vehicles L"
  by (induction ks arbitrary: L) auto

lemma without_vehicles_clear_all [simp]: "without_vehicles (clear_all L) = without_vehicles L"
proof -
  have "without_vehicles (clear_vehicles items L) = without_vehicles L" for items
    by (induction items arbitrary: L) auto
  then show ?thesis by (simp add: clear_all_def)
qed



subsection \<open>The example update\<close>






section \<open>Properties of the traffic simulators\<close>

lemma example_front_of_agent:
  "TrafficLattice_front example_lattice 5 = Some (Inr (Some (7, 2)))"
  by (simp add: TrafficLattice_front_def frontVehicle_def frontVehicle_loop.simps
        vehicleHeadNode_def example_simps)

lemma example_agent_lattice [simp]: "trafficLattice (example_snapshot a) = example_lattice"
  by (simp add: example_snapshot_def)

lemma example_IDM_agent:
  "IDM_agentAcceleration idm (example_snapshot a) 5 = Some (Inr (idm 15 20 (Some (10, 2))))"
  by (simp add: IDM_agentAcceleration_def example_front_of_agent)
     (simp add: vehicle_of_snapshot_def agent_def example_snapshot_def)

lemma example_ConstAccel_agent:
  "ConstAccel_agentAcceleration (example_snapshot a) 5 = Inr a"
  by (simp add: ConstAccel_agentAcceleration_def agent_def example_snapshot_def)

text \<open>
  Claim C3 as stated does not hold for the agents. In the two example snapshots the
  agent 5 follows the ego at the same distance and with the same speeds, so the
  car-following recomputation gives one value for both, whatever the car-following
  model is; \<^verbatim>\<open>ConstAccelTrafficSimulator::agentAcceleration\<close> returns the stored
  accelerations 0 and 1. No car-following model agrees with it on both snapshots.
\<close>

theorem ConstAccel_agentAcceleration_not_car_following:
  "\<not> (\<exists>idm.
        IDM_agentAcceleration idm (example_snapshot 0) 5
          = Some (ConstAccel_agentAcceleration (example_snapshot 0) 5) \<and>
        IDM_agentAcceleration idm (example_snapshot 1) 5
          = Some (ConstAccel_agentAcceleration (example_snapshot 1) 5))"
  by (simp add: example_IDM_agent example_ConstAccel_agent)

text \<open>
  Claim C3, amended. In \<^verbatim>\<open>ConstAccelTrafficSimulator\<close>, \<^verbatim>\<open>egoAcceleration()\<close> is the
  stored acceleration of the snapshot's ego, and \<^verbatim>\<open>agentAcceleration(agent)\<close> is the
  stored acceleration of that agent of the snapshot as well; neither depends on the
  traffic lattice, so neither is recomputed from a lead vehicle.
\<close>

theorem ConstAccel_accelerations:
  "ConstAccel_egoAcceleration S = acceleration (ego S) \<and>
   ConstAccel_agentAcceleration S a =
     (case map_of (agents S) a of
        None \<Rightarrow> Inl AgentNotInSnapshot
      | Some x \<Rightarrow> Inr (acceleration x)) \<and>
   ConstAccel_egoAcceleration (S\<lparr>trafficLattice := L'\<rparr>) = ConstAccel_egoAcceleration S \<and>
   ConstAccel_agentAcceleration (S\<lparr>trafficLattice := L'\<rparr>) a = ConstAccel_agentAcceleration S a"
  by (simp add: ConstAccel_egoAcceleration_def ConstAccel_agentAcceleration_def agent_def
        split: option.splits)

section \<open>Properties of the double arithmetic\<close>

subsection \<open>The binary exponent\<close>

lemma bit_length_bounds:
  "0 < n \<Longrightarrow> 2 ^ (bit_length n - 1) \<le> n \<and> n < 2 ^ bit_length n"
proof (induction n rule: bit_length.induct)
  case (1 n)
  show ?case
  proof (cases "n div 2 = 0")
    case True
    with 1(2) have "n = 1" by presburger
    then show ?thesis by (simp add: bit_length.simps)
  next
    case False
    then have h: "2 ^ (bit_length (n div 2) - 1) \<le> n div 2 \<and> n div 2 < 2 ^ bit_length (n div 2)"
      using 1 by simp
    have pos: "0 < bit_length (n div 2)" using False by (simp add: bit_length.simps [of "n div 2"])
    have eq: "bit_length n = Suc (bit_length (n div 2))"
      using 1(2) by (simp add: bit_length.simps [of n])
    have "2 ^ (bit_length n - 1) = 2 * 2 ^ (bit_length (n div 2) - 1)"
      using pos eq by (cases "bit_length (n div 2)") simp_all
    also have "\<dots> \<le> 2 * (n div 2)" using h by simp
    also have "\<dots> \<le> n" by simp
    finally have a: "2 ^ (bit_length n - 1) \<le> n" .
    have "n < 2 * (n div 2 + 1)" by presburger
    also have "\<dots> \<le> 2 * 2 ^ bit_length (n div 2)" using h by simp
    finally have b: "n < 2 ^ bit_length n" using eq by simp
    show ?thesis using a b by simp
  qed
qed

lemma pow2_pos [simp]: "0 < pow2 e"
  by (simp add: pow2_def)

lemma pow2_powr: "pow2 e = 2 powr (of_int e)"
proof (cases "0 \<le> e")
  case True
  then show ?thesis by (simp add: pow2_def powr_realpow [symmetric])
next
  case False
  then have "2 powr (of_int e) = 2 powr (- real (nat (- e)))" by simp
  also have "\<dots> = 1 / 2 ^ nat (- e)" by (simp add: powr_minus powr_realpow inverse_eq_divide del: of_nat_nat)
  finally show ?thesis using False by (simp add: pow2_def)
qed

lemma pow2_add: "pow2 (a + b) = pow2 a * pow2 b"
  by (simp add: pow2_powr powr_add)

lemma pow2_mono: "a \<le> b \<Longrightarrow> pow2 a \<le> pow2 b"
  by (simp add: pow2_powr)

lemma pow2_nat: "pow2 (int n) = 2 ^ n"
  by (simp add: pow2_def)

lemma pow2_neg_nat: "pow2 (- int n) = 1 / 2 ^ n"
  by (cases n) (simp_all add: pow2_def nat_add_distrib)

lemma binade_bounds:
  assumes "0 < x"
  shows "pow2 (binade x) \<le> x \<and> x < pow2 (binade x + 1)"
proof (cases "1 \<le> x")
  case True
  define n where "n = nat \<lfloor>x\<rfloor>"
  have n: "0 < n" "real n \<le> x" "x < real n + 1" using True by (simp_all add: n_def)
  note b = bit_length_bounds [OF n(1)]
  have pos: "0 < bit_length n" using n(1) by (simp add: bit_length.simps [of n])
  have e: "binade x = int (bit_length n - 1)" using True pos by (simp add: binade_def n_def)
  have "(2::real) ^ (bit_length n - 1) \<le> real n"
    using of_nat_mono [of "2 ^ (bit_length n - 1)" n, where ?'a = real] b by simp
  then have lo: "pow2 (binade x) \<le> x" using n(2) by (simp only: e pow2_nat)
  have "n + 1 \<le> 2 ^ bit_length n" using b by simp
  then have "real n + 1 \<le> 2 ^ bit_length n"
    using of_nat_mono [of "n + 1" "2 ^ bit_length n", where ?'a = real] by simp
  moreover have "binade x + 1 = int (bit_length n)" using e pos by simp
  ultimately have hi: "x < pow2 (binade x + 1)" using n(3) by (simp only: pow2_nat)
  show ?thesis using lo hi by simp
next
  case False
  define y where "y = 1 / x"
  have y: "1 < y" "x = 1 / y" using False assms by (simp_all add: y_def)
  define m where "m = nat (\<lceil>y\<rceil> - 1)"
  have c: "1 < \<lceil>y\<rceil>" using y(1) by linarith
  have m: "0 < m" "real m < y" "y \<le> real m + 1" using c by (simp_all add: m_def) linarith+
  note b = bit_length_bounds [OF m(1)]
  define k where "k = bit_length m"
  have pos: "0 < k" using m(1) by (simp add: k_def bit_length.simps [of m])
  have e: "binade x = - int k" using False by (simp add: binade_def m_def k_def y_def)
  have "m + 1 \<le> 2 ^ k" using b by (simp add: k_def)
  then have "real m + 1 \<le> 2 ^ k"
    using of_nat_mono [of "m + 1" "2 ^ k", where ?'a = real] by simp
  then have yk: "y \<le> 2 ^ k" using m(3) by linarith
  have "(2::real) ^ (k - 1) \<le> real m"
    using of_nat_mono [of "2 ^ (k - 1)" m, where ?'a = real] b by (simp add: k_def)
  then have ky: "2 ^ (k - 1) < y" using m(2) by linarith
  have "1 / 2 ^ k \<le> 1 / y" using yk y(1) by (simp add: frac_le)
  then have lo: "pow2 (binade x) \<le> x" unfolding e pow2_neg_nat using y(2) by simp
  have "binade x + 1 = - int (k - 1)" using e pos by simp
  then have "pow2 (binade x + 1) = 1 / 2 ^ (k - 1)" by (simp only: pow2_neg_nat)
  moreover have "1 / y < 1 / 2 ^ (k - 1)" using ky by (simp add: frac_less2)
  ultimately have hi: "x < pow2 (binade x + 1)" using y(2) by simp
  show ?thesis using lo hi by simp
qed

subsection \<open>Rounding\<close>

text \<open>The rounded integer is at most one half away.\<close>

lemma round_even_bounds:
  "\<bar>of_int (round_even z) - z\<bar> \<le> 1 / 2"
  unfolding round_even_def Let_def by (auto simp: abs_le_iff)


lemma round_even_nonneg: "0 \<le> z \<Longrightarrow> 0 \<le> round_even z"
  using round_even_bounds [of z] by linarith

text \<open>
  A positive number is rounded to a multiple of its \<open>ulp\<close> that is at most half an
  \<open>ulp\<close> away, or overflows.
\<close>

lemma round_double_pos:
  assumes "0 < x"
  shows "\<exists>n. 0 \<le> n \<and>
           \<bar>of_int n * pow2 (max (binade x) (- 1022) - 52) - x\<bar>
              \<le> pow2 (max (binade x) (- 1022) - 52) / 2 \<and>
           round_double x =
             (if 2 ^ 1024 \<le> of_int n * pow2 (max (binade x) (- 1022) - 52) then PlusInfinity
              else Finite (of_int n * pow2 (max (binade x) (- 1022) - 52)))"
proof -
  define U where "U = pow2 (max (binade x) (- 1022) - 52)"
  define n where "n = round_even (x / U)"
  have U: "0 < U" by (simp add: U_def)
  have "0 \<le> x / U" using assms U by simp
  then have n0: "0 \<le> n" unfolding n_def by (rule round_even_nonneg)
  have "\<bar>of_int n - x / U\<bar> \<le> 1 / 2" unfolding n_def by (rule round_even_bounds)
  then have "\<bar>of_int n - x / U\<bar> * U \<le> 1 / 2 * U" using U by (simp only: mult_le_cancel_right_pos)
  moreover have "\<bar>of_int n - x / U\<bar> * U = \<bar>of_int n * U - x\<bar>"
  proof -
    have "(of_int n - x / U) * U = of_int n * U - x"
      using U by (simp add: left_diff_distrib)
    then have "\<bar>of_int n * U - x\<bar> = \<bar>of_int n - x / U\<bar> * \<bar>U\<bar>"
      by (simp only: abs_mult [symmetric])
    then show ?thesis using U by simp
  qed
  ultimately have err: "\<bar>of_int n * U - x\<bar> \<le> U / 2" by simp
  have "round_double x = (if 2 ^ 1024 \<le> of_int n * U then PlusInfinity else Finite (of_int n * U))"
    using assms by (simp add: round_double_def Let_def U_def n_def)
  then show ?thesis using n0 err unfolding U_def by blast
qed


lemma binade_less:
  assumes "0 < x" and "x < pow2 k"
  shows "binade x < k"
proof (rule ccontr)
  assume "\<not> binade x < k"
  then have "pow2 k \<le> pow2 (binade x)" by (simp add: pow2_mono)
  then show False using binade_bounds [OF assms(1)] assms(2) by linarith
qed

lemma binade_eq:
  assumes "pow2 e \<le> x" and "x < pow2 (e + 1)"
  shows "binade x = e"
proof -
  have x: "0 < x" using assms(1) pow2_pos [of e] by linarith
  have "binade x < e + 1" using x assms(2) by (rule binade_less)
  moreover have "\<not> binade x < e"
  proof
    assume "binade x < e"
    then have "pow2 (binade x + 1) \<le> pow2 e" by (simp add: pow2_mono)
    then show False using binade_bounds [OF x] assms(1) by linarith
  qed
  ultimately show ?thesis by simp
qed

lemma round_double_nonneg:
  assumes "0 \<le> x"
  shows "round_double x = PlusInfinity \<or> (\<exists>r. round_double x = Finite r \<and> 0 \<le> r)"
proof (cases "x = 0")
  case True
  then show ?thesis by (simp add: round_double_def)
next
  case False
  then have "0 < x" using assms by simp
  from round_double_pos [OF this] obtain n where
    n: "0 \<le> n" and
    "round_double x =
       (if 2 ^ 1024 \<le> of_int n * pow2 (max (binade x) (- 1022) - 52) then PlusInfinity
        else Finite (of_int n * pow2 (max (binade x) (- 1022) - 52)))"
    by blast
  moreover from \<open>0 \<le> n\<close> have "0 \<le> of_int n * pow2 (max (binade x) (- 1022) - 52)"
    by (intro mult_nonneg_nonneg) (simp_all add: less_imp_le)
  ultimately show ?thesis
    by (cases "(2::real) ^ 1024 \<le> of_int n * pow2 (max (binade x) (- 1022) - 52)") simp_all
qed

text \<open>The largest double below 1 is \<open>1 - 2 ^ -53\<close>.\<close>

lemma round_double_below_one:
  assumes "0 \<le> x" and "round_double x = Finite r" and "r < 1"
  shows "r \<le> 1 - 1 / 2 ^ 53"
proof (cases "x = 0")
  case True
  then show ?thesis using assms(2) by (simp add: round_double_def)
next
  case False
  then have x: "0 < x" using assms(1) by simp
  define e where "e = max (binade x) (- 1022)"
  define U where "U = pow2 (e - 52)"
  from round_double_pos [OF x] obtain n where n: "0 \<le> n" "\<bar>of_int n * U - x\<bar> \<le> U / 2"
    and rd: "round_double x = (if 2 ^ 1024 \<le> of_int n * U then PlusInfinity else Finite (of_int n * U))"
    unfolding U_def e_def by blast
  have r: "r = of_int n * U" using rd assms(2) by (simp split: if_splits)
  have U: "0 < U" by (simp add: U_def)
  note b = binade_bounds [OF x]
  consider "0 \<le> binade x" | "binade x = - 1" | "binade x \<le> - 2" by linarith
  then show ?thesis
  proof cases
    case 1
    then have e: "e = binade x" by (simp add: e_def)
    have "pow2 (binade x) = pow2 52 * U"
      unfolding U_def e pow2_add [symmetric] by simp
    then have "pow2 52 * U \<le> x" using b by simp
    then have "pow2 52 * U - U / 2 \<le> of_int n * U" using n(2) by linarith
    then have "(pow2 52 - 1 / 2) * U \<le> of_int n * U" by (simp add: left_diff_distrib)
    then have "pow2 52 - 1 / 2 \<le> of_int n" using U by (simp only: mult_le_cancel_right_pos)
    then have "(2::real) ^ 52 - 1 / 2 \<le> of_int n" by (simp add: pow2_def)
    then have "real_of_int (2 ^ 52 - 1) < of_int n" by simp
    then have "2 ^ 52 - 1 < n" by (simp only: of_int_less_iff)
    then have "(2::int) ^ 52 \<le> n" by simp
    then have "real_of_int (2 ^ 52) \<le> of_int n" by (simp only: of_int_le_iff)
    then have "(2::real) ^ 52 \<le> of_int n" by simp
    then have "pow2 52 \<le> of_int n" by (simp add: pow2_def)
    then have "pow2 52 * U \<le> of_int n * U" using U by (simp only: mult_le_cancel_right_pos)
    then have "pow2 (binade x) \<le> r" using \<open>pow2 (binade x) = pow2 52 * U\<close> r by simp
    moreover have "pow2 0 \<le> pow2 (binade x)" using 1 by (rule pow2_mono)
    ultimately have "1 \<le> r" by (simp add: pow2_def)
    then show ?thesis using assms(3) by simp
  next
    case 2
    then have "U = 1 / 2 ^ 53" by (simp add: U_def e_def pow2_def)
    then have rn: "r = of_int n / 2 ^ 53" using r by simp
    then have "of_int n < (2::real) ^ 53" using assms(3) by simp
    then have "real_of_int n < of_int (2 ^ 53)" by simp
    then have "n < 2 ^ 53" by (simp only: of_int_less_iff)
    then have "n \<le> 2 ^ 53 - 1" by simp
    then have "real_of_int n \<le> of_int (2 ^ 53 - 1)" by (simp only: of_int_le_iff)
    then have "(of_int n :: real) \<le> 2 ^ 53 - 1" by simp
    then show ?thesis unfolding rn by (simp add: field_simps)
  next
    case 3
    then have "e - 52 \<le> - 54" by (simp add: e_def)
    then have "U \<le> pow2 (- 54)" unfolding U_def by (rule pow2_mono)
    then have Ub: "U \<le> 1 / 2 ^ 54" by (simp add: pow2_def)
    have "binade x + 1 \<le> - 1" using 3 by simp
    then have "pow2 (binade x + 1) \<le> pow2 (- 1)" by (rule pow2_mono)
    then have "x < 1 / 2" using b by (simp add: pow2_def)
    moreover have "r \<le> x + U / 2" using n(2) r by linarith
    moreover have "U / 2 \<le> 1 / 2 ^ 54 / 2" using Ub by simp
    ultimately have "r \<le> 1 / 2 + 1 / 2 ^ 54 / 2" by linarith
    then show ?thesis by simp
  qed
qed

text \<open>Ten times a double below 1 is rounded to a double below 10.\<close>

lemma round_double_times_ten:
  assumes "0 \<le> r" and "r \<le> 1 - 1 / 2 ^ 53"
  shows "\<exists>p. round_double (r * 10) = Finite p \<and> 0 \<le> p \<and> p < 10"
proof (cases "r = 0")
  case True
  then show ?thesis by (simp add: round_double_def)
next
  case False
  then have x: "0 < r * 10" using assms(1) by simp
  define e where "e = max (binade (r * 10)) (- 1022)"
  define U where "U = pow2 (e - 52)"
  from round_double_pos [OF x] obtain n where n: "0 \<le> n" "\<bar>of_int n * U - r * 10\<bar> \<le> U / 2"
    and rd: "round_double (r * 10) =
               (if 2 ^ 1024 \<le> of_int n * U then PlusInfinity else Finite (of_int n * U))"
    unfolding U_def e_def by blast
  have U: "0 < U" by (simp add: U_def)
  have "r * 10 < pow2 4" using assms(2) by (simp add: pow2_def)
  then have "binade (r * 10) < 4" using x by (simp add: binade_less)
  then have "e - 52 \<le> - 49" by (simp add: e_def)
  then have "U \<le> pow2 (- 49)" unfolding U_def by (rule pow2_mono)
  then have Ub: "U \<le> 1 / 2 ^ 49" by (simp add: pow2_def)
  have "of_int n * U \<le> r * 10 + U / 2" using n(2) by linarith
  also have "\<dots> \<le> (1 - 1 / 2 ^ 53) * 10 + 1 / 2 ^ 49 / 2"
  proof (rule add_mono)
    show "r * 10 \<le> (1 - 1 / 2 ^ 53) * 10" using assms(2) by simp
    show "U / 2 \<le> 1 / 2 ^ 49 / 2" using Ub by simp
  qed
  also have "\<dots> < 10" by simp
  finally have lt: "of_int n * U < 10" .
  then have "\<not> 2 ^ 1024 \<le> of_int n * U" by simp
  then have "round_double (r * 10) = Finite (of_int n * U)" using rd by simp
  moreover have "0 \<le> of_int n * U" using n(1) U by (intro mult_nonneg_nonneg) simp_all
  ultimately show ?thesis using lt by blast
qed

text \<open>The unfolding rules that evaluate the arithmetic on numerals.\<close>

lemmas double_eval = round_double_def binade_def bit_length.simps pow2_def round_even_def
  double_sub_def Let_def

text \<open>
  Ties go to the even significand, also below the normal doubles, and the first number
  that overflows is halfway between the largest double and \<open>2 ^ 1024\<close>.
\<close>

lemma round_double_ties:
  "round_double (1 + 1 / 2 ^ 53) = Finite 1"
  "round_double (1 + 3 / 2 ^ 53) = Finite (1 + 1 / 2 ^ 51)"
  "round_double (3 / 2 ^ 1075) = Finite (1 / 2 ^ 1073)"
  "round_double (2 ^ 1024 - 2 ^ 970) = PlusInfinity"
  "round_double (2 ^ 1024 - 2 ^ 970 - 1) = Finite (2 ^ 1024 - 2 ^ 971)"
  by (simp_all add: double_eval)

text \<open>
  Values of the arithmetic: 0.3 and 0.6 are rounded to the doubles next to them; the
  quotient of the doubles next to 4.02 and 13.4 is rounded below 0.3; ten times the
  double next to 0.3 is rounded to 3; and ten times the quotient of the double next to
  1.2 by 1.5 stays below 8.
\<close>

lemma round_double_examples:
  "round_double (3 / 10) = Finite (5404319552844595 / 18014398509481984)"
  "round_double (6 / 10) = Finite (5404319552844595 / 9007199254740992)"
  "double_div (Finite (1131529406376837 / 281474976710656))
              (Finite (7543529375845581 / 562949953421312))
     = Finite (2702159776422297 / 9007199254740992)"
  "double_mul (Finite (5404319552844595 / 18014398509481984)) (Finite 10) = Finite 3"
  "double_mul (double_div (Finite (5404319552844595 / 4503599627370496)) (Finite (3 / 2)))
              (Finite 10)
     = Finite (9007199254740991 / 1125899906842624)"
  by (simp_all add: double_eval)


section \<open>Properties of the station graph\<close>

subsection \<open>The optimal parent\<close>

lemma prefer_le: "parent_cost (prefer_parent c p) \<le> parent_cost p"
  by (simp add: prefer_parent_def split: option.splits)

lemma prefer_le_candidate: "parent_cost (prefer_parent (Some q) p) \<le> parent_cost q"
  by (simp add: prefer_parent_def)

lemma prefer_tie: "parent_cost q = parent_cost (prefer_parent (Some q) p) \<Longrightarrow> prefer_parent (Some q) p = q"
  by (simp add: prefer_parent_def split: if_splits)

lemma prefer_kept: "prefer_parent c p \<noteq> p \<Longrightarrow> c = Some (prefer_parent c p)"
  by (cases c) (simp_all add: prefer_parent_def split: if_splits)

lemma prefer_same: "prefer_parent (Some q) p = p \<Longrightarrow> p = q \<or> parent_cost p < parent_cost q"
  by (simp add: prefer_parent_def split: if_splits)

lemma parents_iff:
  "q \<in> set (parents s) \<longleftrightarrow> back_parent s = Some q \<or> left_parent s = Some q \<or> right_parent s = Some q"
  by (cases "back_parent s"; cases "left_parent s"; cases "right_parent s";
      simp add: parents_def; blast)

lemma updateOptimalParent_result:
  assumes "parents s \<noteq> []"
  shows "\<exists>p. updateOptimalParent s = Inr (s\<lparr>optimal_parent := Some p, snapshot := fst p\<rparr>) \<and>
    (\<forall>q\<in>set (parents s). parent_cost p \<le> parent_cost q) \<and>
    (p \<in> set (parents s) \<or>
       (optimal_parent s = Some p \<and> (\<forall>q\<in>set (parents s). parent_cost p < parent_cost q))) \<and>
    (\<forall>b. back_parent s = Some b \<and> parent_cost b = parent_cost p \<longrightarrow> p = b) \<and>
    (\<forall>r. right_parent s = Some r \<and> parent_cost r = parent_cost p \<and>
          (\<forall>b. back_parent s = Some b \<longrightarrow> parent_cost b \<noteq> parent_cost p) \<longrightarrow> p = r)"
proof -
  define init where "init = (case optimal_parent s of
              Some p \<Rightarrow> Some p
            | None \<Rightarrow>
                (case left_parent s of
                   Some p \<Rightarrow> Some p
                 | None \<Rightarrow>
                     (case back_parent s of
                        Some p \<Rightarrow> Some p
                      | None \<Rightarrow> right_parent s)))"
  have "init \<noteq> None"
    using assms by (auto simp: init_def parents_def split: option.splits)
  then obtain p0 where p0: "init = Some p0" by (cases init) simp_all
  have p0_src: "optimal_parent s = Some p0 \<or> p0 \<in> set (parents s)"
    using p0 by (auto simp: init_def parents_iff split: option.splits)
  define p1 where "p1 = prefer_parent (left_parent s) p0"
  define p2 where "p2 = prefer_parent (right_parent s) p1"
  define p3 where "p3 = prefer_parent (back_parent s) p2"
  have res: "updateOptimalParent s = Inr (s\<lparr>optimal_parent := Some p3, snapshot := fst p3\<rparr>)"
    using p0 unfolding updateOptimalParent_def init_def [symmetric]
    by (simp add: p1_def p2_def p3_def Let_def)
  have le: "parent_cost p3 \<le> parent_cost p2" "parent_cost p2 \<le> parent_cost p1"
    "parent_cost p1 \<le> parent_cost p0"
    by (simp_all add: p1_def p2_def p3_def prefer_le)
  have minimal: "\<forall>q\<in>set (parents s). parent_cost p3 \<le> parent_cost q"
  proof
    fix q assume "q \<in> set (parents s)"
    then consider "back_parent s = Some q" | "left_parent s = Some q" | "right_parent s = Some q"
      by (auto simp: parents_iff)
    then show "parent_cost p3 \<le> parent_cost q"
    proof cases
      case 1
      then show ?thesis using prefer_le_candidate [of q p2] by (simp add: p3_def)
    next
      case 2
      then have "parent_cost p1 \<le> parent_cost q"
        using prefer_le_candidate [of q p0] by (simp add: p1_def)
      then show ?thesis using le by linarith
    next
      case 3
      then have "parent_cost p2 \<le> parent_cost q"
        using prefer_le_candidate [of q p1] by (simp add: p2_def)
      then show ?thesis using le by linarith
    qed
  qed
  have member: "p3 \<in> set (parents s) \<or>
       (optimal_parent s = Some p3 \<and> (\<forall>q\<in>set (parents s). parent_cost p3 < parent_cost q))"
  proof (cases "p3 \<in> set (parents s)")
    case True
    then show ?thesis by simp
  next
    case False
    have e3: "p3 = p2" using prefer_kept [of "back_parent s" p2] False
      by (auto simp: p3_def parents_iff)
    have e2: "p2 = p1" using prefer_kept [of "right_parent s" p1] False e3
      by (auto simp: p2_def parents_iff)
    have e1: "p1 = p0" using prefer_kept [of "left_parent s" p0] False e3 e2
      by (auto simp: p1_def parents_iff)
    have opt: "optimal_parent s = Some p3" using p0_src False e1 e2 e3 by simp
    have "parent_cost p3 < parent_cost q" if "q \<in> set (parents s)" for q
    proof -
      from that consider "back_parent s = Some q" | "left_parent s = Some q"
        | "right_parent s = Some q"
        by (auto simp: parents_iff)
      then show ?thesis
      proof cases
        case 1
        then have "prefer_parent (Some q) p2 = p2" using e3 by (simp add: p3_def)
        then show ?thesis using prefer_same [of q p2] that False e3 by auto
      next
        case 2
        then have "prefer_parent (Some q) p0 = p0" using e1 by (simp add: p1_def)
        then show ?thesis using prefer_same [of q p0] that False e1 e2 e3 by auto
      next
        case 3
        then have "prefer_parent (Some q) p1 = p1" using e2 by (simp add: p2_def)
        then show ?thesis using prefer_same [of q p1] that False e2 e3 by auto
      qed
    qed
    then show ?thesis using opt by blast
  qed
  have tie_back: "\<forall>b. back_parent s = Some b \<and> parent_cost b = parent_cost p3 \<longrightarrow> p3 = b"
    using prefer_tie [of _ p2] by (auto simp: p3_def)
  have tie_right: "\<forall>r. right_parent s = Some r \<and> parent_cost r = parent_cost p3 \<and>
          (\<forall>b. back_parent s = Some b \<longrightarrow> parent_cost b \<noteq> parent_cost p3) \<longrightarrow> p3 = r"
  proof (intro allI impI)
    fix r
    assume a: "right_parent s = Some r \<and> parent_cost r = parent_cost p3 \<and>
          (\<forall>b. back_parent s = Some b \<longrightarrow> parent_cost b \<noteq> parent_cost p3)"
    have "p3 = p2"
    proof (rule ccontr)
      assume "p3 \<noteq> p2"
      then have "back_parent s = Some p3" using prefer_kept [of "back_parent s" p2]
        by (simp add: p3_def)
      then show False using a by blast
    qed
    then show "p3 = r" using a prefer_tie [of r p1] by (simp add: p2_def)
  qed
  show ?thesis using res minimal member tie_back tie_right by blast
qed


lemma parents_update [simp]:
  "parents (s\<lparr>optimal_parent := x, snapshot := y\<rparr>) = parents s"
  by (simp add: parents_def)

lemma update_slot_nonempty:
  "parents (s\<lparr>left_parent := Some p\<rparr>) \<noteq> []"
  "parents (s\<lparr>back_parent := Some p\<rparr>) \<noteq> []"
  "parents (s\<lparr>right_parent := Some p\<rparr>) \<noteq> []"
  by (simp_all add: parents_def split: option.splits)

lemma updateOptimalParent_after_update:
  assumes "parents s1 \<noteq> []" and "optimal_parent s1 = optimal_parent s"
  shows "\<exists>s' p. updateOptimalParent s1 = Inr s' \<and> optimal_parent s' = Some p \<and> snapshot s' = fst p \<and>
      (\<forall>q\<in>set (parents s'). parent_cost p \<le> parent_cost q) \<and>
      ((\<forall>old. optimal_parent s = Some old \<longrightarrow> (\<exists>q\<in>set (parents s'). parent_cost q \<le> parent_cost old))
         \<longrightarrow> p \<in> set (parents s')) \<and>
      (\<forall>b. back_parent s' = Some b \<and> parent_cost b = parent_cost p \<longrightarrow> p = b) \<and>
      (\<forall>r. right_parent s' = Some r \<and> parent_cost r = parent_cost p \<and>
            (\<forall>b. back_parent s' = Some b \<longrightarrow> parent_cost b \<noteq> parent_cost p) \<longrightarrow> p = r)"
proof -
  from updateOptimalParent_result [OF assms(1)] obtain p where
    res: "updateOptimalParent s1 = Inr (s1\<lparr>optimal_parent := Some p, snapshot := fst p\<rparr>)" and
    minimal: "\<forall>q\<in>set (parents s1). parent_cost p \<le> parent_cost q" and
    member: "p \<in> set (parents s1) \<or>
       (optimal_parent s1 = Some p \<and> (\<forall>q\<in>set (parents s1). parent_cost p < parent_cost q))" and
    tie_back: "\<forall>b. back_parent s1 = Some b \<and> parent_cost b = parent_cost p \<longrightarrow> p = b" and
    tie_right: "\<forall>r. right_parent s1 = Some r \<and> parent_cost r = parent_cost p \<and>
          (\<forall>b. back_parent s1 = Some b \<longrightarrow> parent_cost b \<noteq> parent_cost p) \<longrightarrow> p = r"
    by (elim exE conjE) (rule that)
  let ?s' = "s1\<lparr>optimal_parent := Some p, snapshot := fst p\<rparr>"
  have fresh: "p \<in> set (parents ?s')"
    if "\<forall>old. optimal_parent s = Some old \<longrightarrow> (\<exists>q\<in>set (parents ?s'). parent_cost q \<le> parent_cost old)"
  proof (rule ccontr)
    assume "p \<notin> set (parents ?s')"
    then have stale: "optimal_parent s = Some p" "\<forall>q\<in>set (parents s1). parent_cost p < parent_cost q"
      using member assms(2) by auto
    with that obtain q where "q \<in> set (parents s1)" "parent_cost q \<le> parent_cost p" by auto
    then show False using stale(2) by fastforce
  qed
  have "optimal_parent ?s' = Some p" "snapshot ?s' = fst p" by simp_all
  moreover have "\<forall>q\<in>set (parents ?s'). parent_cost p \<le> parent_cost q" using minimal by simp
  moreover have "\<forall>b. back_parent ?s' = Some b \<and> parent_cost b = parent_cost p \<longrightarrow> p = b"
    using tie_back by simp
  moreover have "\<forall>r. right_parent ?s' = Some r \<and> parent_cost r = parent_cost p \<and>
            (\<forall>b. back_parent ?s' = Some b \<longrightarrow> parent_cost b \<noteq> parent_cost p) \<longrightarrow> p = r"
    using tie_right by simp
  ultimately show ?thesis using res fresh by blast
qed

text \<open>
  Claim C2, amended. After \<^verbatim>\<open>updateLeftParent\<close>, \<^verbatim>\<open>updateBackParent\<close> or
  \<^verbatim>\<open>updateRightParent\<close> on any station, the station has an optimal parent; its
  cost-to-come is at most that of each of the station's back, left and right parents;
  unless the optimal parent cached before the update was strictly cheaper than all of
  them, it is one of these parents; a parent of the same cost as the optimal one is the
  optimal one if it is the back parent, and also if it is the right parent and the back
  parent does not have that cost, so a tie prefers the back parent and a subsequent tie
  prefers the right parent over the left one; and the station's snapshot is the
  snapshot stored in the optimal parent.
\<close>

theorem update_parent_optimal:
  assumes "r = updateLeftParent s snap c pa \<or> r = updateBackParent s snap c pa \<or>
           r = updateRightParent s snap c pa"
  shows "\<exists>s' p. r = Inr s' \<and> optimal_parent s' = Some p \<and> snapshot s' = fst p \<and>
      (\<forall>q\<in>set (parents s'). parent_cost p \<le> parent_cost q) \<and>
      ((\<forall>old. optimal_parent s = Some old \<longrightarrow> (\<exists>q\<in>set (parents s'). parent_cost q \<le> parent_cost old))
         \<longrightarrow> p \<in> set (parents s')) \<and>
      (\<forall>b. back_parent s' = Some b \<and> parent_cost b = parent_cost p \<longrightarrow> p = b) \<and>
      (\<forall>r. right_parent s' = Some r \<and> parent_cost r = parent_cost p \<and>
            (\<forall>b. back_parent s' = Some b \<longrightarrow> parent_cost b \<noteq> parent_cost p) \<longrightarrow> p = r)"
proof -
  from assms consider "r = updateOptimalParent (s\<lparr>left_parent := Some (snap, c, pa)\<rparr>)"
    | "r = updateOptimalParent (s\<lparr>back_parent := Some (snap, c, pa)\<rparr>)"
    | "r = updateOptimalParent (s\<lparr>right_parent := Some (snap, c, pa)\<rparr>)"
    by (auto simp: updateLeftParent_def updateBackParent_def updateRightParent_def)
  then show ?thesis
  proof cases
    case 1
    show ?thesis unfolding 1
      by (rule updateOptimalParent_after_update) (simp_all add: update_slot_nonempty)
  next
    case 2
    show ?thesis unfolding 2
      by (rule updateOptimalParent_after_update) (simp_all add: update_slot_nonempty)
  next
    case 3
    show ?thesis unfolding 3
      by (rule updateOptimalParent_after_update) (simp_all add: update_slot_nonempty)
  qed
qed

lemmas example_station_simps = example_station_def updateLeftParent_def updateRightParent_def
  updateBackParent_def updateOptimalParent_def prefer_parent_def parent_cost_def Let_def

text \<open>
  Claim C2 as stated fails on a tie between the left and the right parent: a station
  gets a left parent and then a right parent, both with the cost-to-come 5, and has no
  back parent. Its optimal parent is the right parent, not the left one.
\<close>

theorem tie_prefers_right_over_left:
  "\<exists>s1 s2. updateLeftParent (example_station 60 50 10) (example_ego_snapshot 11) 5 1 = Inr s1 \<and>
     updateRightParent s1 (example_ego_snapshot 12) 5 2 = Inr s2 \<and>
     back_parent s2 = None \<and>
     left_parent s2 = Some (example_ego_snapshot 11, 5, 1) \<and>
     right_parent s2 = Some (example_ego_snapshot 12, 5, 2) \<and>
     optimal_parent s2 = right_parent s2 \<and>
     optimal_parent s2 \<noteq> left_parent s2 \<and>
     snapshot s2 = example_ego_snapshot 12"
  by (simp add: example_station_simps)

text \<open>
  A station gets a left, a right and a back parent, all with the cost-to-come 5; the theorem
  is used at the last update. The optimal parent is the back parent.
\<close>

theorem update_parent_optimal_witness:
  "\<exists>s1 s2 s3. updateLeftParent (example_station 60 50 10) (example_ego_snapshot 11) 5 1 = Inr s1 \<and>
     updateRightParent s1 (example_ego_snapshot 12) 5 2 = Inr s2 \<and>
     updateBackParent s2 (example_ego_snapshot 13) 5 3 = Inr s3 \<and>
     optimal_parent s3 = back_parent s3 \<and>
     optimal_parent s3 = Some (example_ego_snapshot 13, 5, 3) \<and>
     snapshot s3 = example_ego_snapshot 13"
  using update_parent_optimal [of
      "updateBackParent
         (projr (updateRightParent
            (projr (updateLeftParent (example_station 60 50 10) (example_ego_snapshot 11) 5 1))
            (example_ego_snapshot 12) 5 2))
         (example_ego_snapshot 13) 5 3"
      "projr (updateRightParent
            (projr (updateLeftParent (example_station 60 50 10) (example_ego_snapshot 11) 5 1))
            (example_ego_snapshot 12) 5 2)"
      "example_ego_snapshot 13" 5 3]
  by (simp add: example_station_simps)

subsection \<open>The terminal speed cost\<close>

lemma truncate_below_ten:
  assumes "0 \<le> p" and "p < (10::real)"
  shows "truncate_to_int p = Inr \<lfloor>p\<rfloor> \<and> 0 \<le> \<lfloor>p\<rfloor> \<and> \<lfloor>p\<rfloor> \<le> 9"
proof -
  have "0 \<le> \<lfloor>p\<rfloor>" "\<lfloor>p\<rfloor> \<le> 9" using assms by (simp_all add: floor_less_iff le_floor_iff)
  then show ?thesis using assms(1) by (simp add: truncate_to_int_def Let_def)
qed

lemma speed_cost_map_code_table:
  assumes "0 \<le> k" and "k \<le> 9"
  shows "bucket_value code_speed_table k = Some (cost_map_at speed_cost_map k) \<and>
         entries_for code_speed_table k = 1"
proof -
  from assms have "k = 0 \<or> k = 1 \<or> k = 2 \<or> k = 3 \<or> k = 4 \<or> k = 5 \<or> k = 6 \<or> k = 7 \<or> k = 8 \<or> k = 9"
    by presburger
  then show ?thesis
    by (elim disjE)
      (simp_all add: bucket_value_def entries_for_def code_speed_table_def cost_map_at_def
         speed_cost_map_def)
qed

text \<open>
  Claim C8, amended. For a terminal station whose ego speed \<open>v\<close> is not negative and
  whose policy speed \<open>w\<close> is positive, both finite doubles, the speed ratio is the double
  quotient of the two speeds: the exact quotient rounded to a double, or plus infinity. \<^verbatim>\<open>terminalSpeedCost\<close> is 0
  when the ratio is at least 1. Otherwise the ratio is a double from 0 to below 1, its
  double product with 10 is a double from 0 to below 10, whose integer part is the key,
  from 0 to 9, and the cost is the value that the table 0 to 2: 4, 3 to 4: 3, 5 to 6: 2,
  7 to 8: 1, 9: 0 gives for the key, in its one entry for it.
\<close>

theorem terminalSpeedCost_buckets:
  assumes "\<not> hasChild s"
    and "round_double (speed (ego (snapshot s))) = Finite v" and "0 \<le> v"
    and "round_double (policySpeed (ego (snapshot s))) = Finite w" and "0 < w"
  shows "speed_ratio s = round_double (v / w) \<and>
         (at_least_one (speed_ratio s) \<longrightarrow> terminalSpeedCost s = Inr 0) \<and>
         (\<not> at_least_one (speed_ratio s) \<longrightarrow>
            (\<exists>r p c. speed_ratio s = Finite r \<and> 0 \<le> r \<and> r < 1 \<and>
                 double_mul (speed_ratio s) (Finite 10) = round_double (r * 10) \<and>
                 round_double (r * 10) = Finite p \<and> 0 \<le> p \<and> p < 10 \<and>
                 0 \<le> \<lfloor>p\<rfloor> \<and> \<lfloor>p\<rfloor> \<le> 9 \<and>
                 bucket_value code_speed_table \<lfloor>p\<rfloor> = Some c \<and>
                 entries_for code_speed_table \<lfloor>p\<rfloor> = 1 \<and>
                 terminalSpeedCost s = Inr c))"
proof -
  have sr: "speed_ratio s = round_double (v / w)"
    using assms(2,4,5) by (simp add: speed_ratio_def)
  have guard: "\<not> (double_less (round_double (speed (ego (snapshot s)))) (Finite 0) \<or>
                  double_less (round_double (policySpeed (ego (snapshot s)))) (Finite 0))"
    using assms(2-5) by simp
  have a: "terminalSpeedCost s = Inr 0" if "at_least_one (speed_ratio s)"
    using assms(1) guard that by (simp add: terminalSpeedCost_def Let_def)
  have b: "\<exists>r p c. speed_ratio s = Finite r \<and> 0 \<le> r \<and> r < 1 \<and>
                 double_mul (speed_ratio s) (Finite 10) = round_double (r * 10) \<and>
                 round_double (r * 10) = Finite p \<and> 0 \<le> p \<and> p < 10 \<and>
                 0 \<le> \<lfloor>p\<rfloor> \<and> \<lfloor>p\<rfloor> \<le> 9 \<and>
                 bucket_value code_speed_table \<lfloor>p\<rfloor> = Some c \<and>
                 entries_for code_speed_table \<lfloor>p\<rfloor> = 1 \<and>
                 terminalSpeedCost s = Inr c"
    if no: "\<not> at_least_one (speed_ratio s)"
  proof -
    have x: "0 \<le> v / w" using assms(3,5) by simp
    from round_double_nonneg [OF x] no sr obtain r where
      r: "speed_ratio s = Finite r" "0 \<le> r" by auto
    have r1: "r < 1" using no r(1) by simp
    have "round_double (v / w) = Finite r" using sr r(1) by simp
    from round_double_below_one [OF x this r1] have "r \<le> 1 - 1 / 2 ^ 53" .
    from round_double_times_ten [OF r(2) this] obtain p where
      p: "round_double (r * 10) = Finite p" "0 \<le> p" "p < 10" by blast
    have m: "double_mul (speed_ratio s) (Finite 10) = round_double (r * 10)"
      by (simp add: r(1))
    note t = truncate_below_ten [OF p(2,3)]
    have "terminalSpeedCost s = Inr (cost_map_at speed_cost_map \<lfloor>p\<rfloor>)"
      using assms(1) guard no t by (simp add: terminalSpeedCost_def Let_def m p(1))
    moreover note speed_cost_map_code_table [of "\<lfloor>p\<rfloor>"]
    ultimately show ?thesis using r r1 m p t by auto
  qed
  show ?thesis using sr a b by blast
qed

text \<open>
  Claim C8 as stated fails on the first entry of its table. The terminal station of the
  example with the ego speed 7 and the policy speed 20 has the ratio 0.35 (the double
  next to it) and the product 3.5, so the key 3; the table of the claim gives 4 for the
  key 3, in its entry "0 to 4: 4", and the speed cost of the station is 3. 
\<close>

theorem terminalSpeedCost_not_spec_table:
  "\<not> hasChild (example_station 60 50 7 :: nat Station) \<and>
   speed (ego (snapshot (example_station 60 50 7 :: nat Station))) = 7 \<and>
   policySpeed (ego (snapshot (example_station 60 50 7 :: nat Station))) = 20 \<and>
   speed_ratio (example_station 60 50 7 :: nat Station)
     = Finite (3152519739159347 / 9007199254740992) \<and>
   double_mul (speed_ratio (example_station 60 50 7 :: nat Station)) (Finite 10) = Finite (7 / 2) \<and>
   \<lfloor>7 / 2 :: real\<rfloor> = 3 \<and>
   bucket_value spec_speed_table 3 = Some 4 \<and>
   terminalSpeedCost (example_station 60 50 7 :: nat Station) = Inr 3 \<and>
   terminalSpeedCost (example_station 60 50 7 :: nat Station)
     \<noteq> Inr (the (bucket_value spec_speed_table 3))"
  by (simp add: example_station_def example_ego_snapshot_def example_snapshot_def hasChild_def
        terminalSpeedCost_def speed_ratio_def truncate_to_int_def cost_map_at_def
        speed_cost_map_def bucket_value_def spec_speed_table_def double_eval)


text \<open>
  Two terminal stations next to the boundary between the keys 2 and 3. With the ego
  speed 0.3 and the policy speed 1 the ratio is the double next to 0.3, which is below
  0.3; its product with 10 is rounded to 3 and the cost is 3. With the speeds 4.02 and
  13.4 the quotient of the doubles next to them is rounded to a double below 0.3, the
  product stays below 3 and the cost is 4.
\<close>

lemma example_terminal_fields:
  "\<not> hasChild (example_terminal a b)"
  "speed (ego (snapshot (example_terminal a b))) = a"
  "policySpeed (ego (snapshot (example_terminal a b))) = b"
  by (simp_all add: example_terminal_def example_station_def example_ego_snapshot_def
        example_snapshot_def hasChild_def)

lemma example_speeds:
  "round_double (3 / 10) = Finite (5404319552844595 / 18014398509481984)"
  "round_double 1 = Finite 1"
  "round_double (402 / 100) = Finite (1131529406376837 / 281474976710656)"
  "round_double (134 / 10) = Finite (7543529375845581 / 562949953421312)"
  by (simp_all add: double_eval)

theorem terminalSpeedCost_buckets_witness:
  "terminalSpeedCost (example_terminal (3 / 10) 1) = Inr 3 \<and>
   speed_ratio (example_terminal (3 / 10) 1) = Finite (5404319552844595 / 18014398509481984) \<and>
   double_mul (speed_ratio (example_terminal (3 / 10) 1)) (Finite 10) = Finite 3 \<and>
   bucket_value code_speed_table 3 = Some 3 \<and>
   terminalSpeedCost (example_terminal (402 / 100) (134 / 10)) = Inr 4 \<and>
   speed_ratio (example_terminal (402 / 100) (134 / 10))
     = Finite (2702159776422297 / 9007199254740992) \<and>
   double_mul (speed_ratio (example_terminal (402 / 100) (134 / 10))) (Finite 10)
     = Finite (3377699720527871 / 1125899906842624) \<and>
   bucket_value code_speed_table 2 = Some 4"
proof -
  let ?a = "example_terminal (3 / 10) 1" and ?b = "example_terminal (402 / 100) (134 / 10)"
  have r1: "speed_ratio ?a = Finite (5404319552844595 / 18014398509481984)"
    and r2: "speed_ratio ?b = Finite (2702159776422297 / 9007199254740992)"
    unfolding speed_ratio_def example_terminal_fields example_speeds
    by (simp_all add: double_eval)
  have m1: "double_mul (speed_ratio ?a) (Finite 10) = Finite 3"
    and m2: "double_mul (speed_ratio ?b) (Finite 10)
               = Finite (3377699720527871 / 1125899906842624)"
    unfolding r1 r2 by (simp_all add: double_eval)
  have b: "bucket_value code_speed_table 3 = Some 3" "bucket_value code_speed_table 2 = Some 4"
    by (simp_all add: bucket_value_def code_speed_table_def)
  have f: "\<lfloor>3377699720527871 / 1125899906842624 :: real\<rfloor> = 2" "\<lfloor>3 :: real\<rfloor> = 3" by simp_all
  have ha: "round_double (speed (ego (snapshot ?a))) = Finite (5404319552844595 / 18014398509481984)"
    "round_double (policySpeed (ego (snapshot ?a))) = Finite 1"
    and hb: "round_double (speed (ego (snapshot ?b))) = Finite (1131529406376837 / 281474976710656)"
    "round_double (policySpeed (ego (snapshot ?b))) = Finite (7543529375845581 / 562949953421312)"
    by (simp_all only: example_terminal_fields example_speeds)
  have ca: "terminalSpeedCost ?a = Inr 3"
  proof -
    have no: "\<not> at_least_one (speed_ratio ?a)" unfolding r1 by simp
    have nn: "0 \<le> (5404319552844595 / 18014398509481984 :: real)" "0 < (1 :: real)" by simp_all
    from terminalSpeedCost_buckets [OF example_terminal_fields(1) ha(1) nn(1) ha(2) nn(2),
        THEN conjunct2, THEN conjunct2, THEN mp, OF no]
    obtain r p c where x:
      "double_mul (speed_ratio ?a) (Finite 10) = round_double (r * 10)"
      "round_double (r * 10) = Finite p"
      "bucket_value code_speed_table \<lfloor>p\<rfloor> = Some c" "terminalSpeedCost ?a = Inr c"
      by blast
    have "Finite p = Finite 3" using x(1,2) m1 by metis
    then have "\<lfloor>p\<rfloor> = 3" by simp
    then have "c = 3" using x(3) b(1) by simp
    then show ?thesis using x(4) by simp
  qed
  have cb: "terminalSpeedCost ?b = Inr 4"
  proof -
    have no: "\<not> at_least_one (speed_ratio ?b)" unfolding r2 by simp
    have nn: "0 \<le> (1131529406376837 / 281474976710656 :: real)"
      "0 < (7543529375845581 / 562949953421312 :: real)" by simp_all
    from terminalSpeedCost_buckets [OF example_terminal_fields(1) hb(1) nn(1) hb(2) nn(2),
        THEN conjunct2, THEN conjunct2, THEN mp, OF no]
    obtain r p c where x:
      "double_mul (speed_ratio ?b) (Finite 10) = round_double (r * 10)"
      "round_double (r * 10) = Finite p"
      "bucket_value code_speed_table \<lfloor>p\<rfloor> = Some c" "terminalSpeedCost ?b = Inr c"
      by blast
    have "Finite p = Finite (3377699720527871 / 1125899906842624)" using x(1,2) m2 by metis
    then have "p = 3377699720527871 / 1125899906842624" by (simp only: double.inject)
    then have "\<lfloor>p\<rfloor> = 2" using f(1) by (simp only:)
    then have "c = 4" using x(3) b(2) by simp
    then show ?thesis using x(4) by simp
  qed
  show ?thesis using ca cb r1 r2 m1 m2 b by simp
qed

section \<open>Properties of the speed intervals\<close>

text \<open>
  The doubles that the bounds of the intervals stand for: those of 13.4112 and 26.8224
  are a little below the decimal values, and the one of 40.2336 is a little above.
\<close>

lemma speed_interval_bounds:
  "double_literal 13.4112 = 7549834415323899 / 562949953421312"
  "double_literal 26.8224 = 7549834415323899 / 281474976710656"
  "double_literal 40.2336 = 5662375811492925 / 140737488355328"
  by (simp_all add: double_literal_def double_eval)

lemma speed_interval_order:
  "0 < double_literal 13.4112"
  "double_literal 13.4112 < double_literal 26.8224"
  "double_literal 26.8224 < double_literal 40.2336"
  unfolding speed_interval_bounds by simp_all

lemma speedIntervalIdx_finite:
  assumes "round_double x = Finite s"
  shows "speedIntervalIdx x =
     (if s < 0 then None
      else if s < double_literal 13.4112 then Some 0
      else if s < double_literal 26.8224 then Some 1
      else if s < double_literal 40.2336 then Some 2
      else None)"
  using assms
  by (simp add: speedIntervalIdx_def kSpeedIntervalsPerStation_def double_literal_def double_eval)

lemma speedIntervalIdx_not_finite:
  assumes "\<forall>s. round_double x \<noteq> Finite s"
  shows "speedIntervalIdx x = None"
  using assms
  by (cases "round_double x")
    (simp_all add: speedIntervalIdx_def kSpeedIntervalsPerStation_def double_eval)

lemma speedIntervalIdx_valid:
  "(\<exists>i. speedIntervalIdx x = Some i) =
     (\<exists>s. round_double x = Finite s \<and> 0 \<le> s \<and> s < double_literal 40.2336)"
proof (cases "\<exists>s. round_double x = Finite s")
  case True
  then obtain s where s: "round_double x = Finite s" by blast
  show ?thesis
    unfolding speedIntervalIdx_finite [OF s] using s speed_interval_order by auto
next
  case False
  then have "speedIntervalIdx x = None" by (simp add: speedIntervalIdx_not_finite)
  then show ?thesis using False by simp
qed

text \<open>
  No double lies between the decimal value 40.2336 and the double that the literal
  stands for, so for a speed that is a double the two bounds exclude the same speeds.
\<close>

lemma double_below_upper_bound:
  assumes "is_double s" and "s < double_literal 40.2336"
  shows "s < 40.2336"
proof (rule ccontr)
  assume "\<not> s < 40.2336"
  then have lo: "40.2336 \<le> s" by simp
  have hi: "s < 5662375811492925 / 140737488355328"
    using assms(2) unfolding speed_interval_bounds .
  have "pow2 5 \<le> s" using lo by (simp add: pow2_def)
  moreover have "s < pow2 (5 + 1)" using hi by (simp add: pow2_def)
  ultimately have b: "binade s = 5" by (rule binade_eq)
  have pos: "0 < s" using lo by simp
  from round_double_pos [OF pos] obtain n where
    n: "round_double s =
             (if 2 ^ 1024 \<le> of_int n * pow2 (max (binade s) (- 1022) - 52) then PlusInfinity
              else Finite (of_int n * pow2 (max (binade s) (- 1022) - 52)))"
    by blast
  have "s = of_int n * pow2 (max (binade s) (- 1022) - 52)"
    using n assms(1) unfolding is_double_def by (simp split: if_splits)
  then have s: "s = of_int n / 140737488355328" unfolding b by (simp add: pow2_def)
  then have "real_of_int n < of_int 5662375811492925" using hi by simp
  then have "n < 5662375811492925" by (simp only: of_int_less_iff)
  then have "n \<le> 5662375811492924" by simp
  then have "real_of_int n \<le> of_int 5662375811492924" by (simp only: of_int_le_iff)
  then have "s \<le> 5662375811492924 / 140737488355328" unfolding s by simp
  then show False using lo by simp
qed

lemma upper_bound_above: "(40.2336 :: real) < double_literal 40.2336"
  unfolding speed_interval_bounds by simp

text \<open>
  Claim C9. For a speed \<open>s\<close> that is a double, \<^verbatim>\<open>Vertex::speedIntervalIdx\<close> returns an
  index exactly when \<open>s\<close> is from 0 (included) to 40.2336 (excluded), and it returns the
  index \<open>i\<close> exactly when \<open>s\<close> is in the \<open>i\<close>-th interval with its lower bound included
  and its upper bound excluded, the bounds being the doubles that the literals stand
  for. So the speeds 13.4112 and 26.8224 on a boundary belong to the upper interval and
  40.2336 to none. \<^verbatim>\<open>addVertexToTable\<close> enters a vertex in the table exactly when its
  speed has an index: for every other speed it takes the branch that builds the error
  message, which is undefined behaviour, and returns no table.
\<close>

theorem speedIntervalIdx_intervals:
  "(is_double s \<longrightarrow> ((\<exists>i. speedIntervalIdx s = Some i) = (0 \<le> s \<and> s < 40.2336))) \<and>
   (is_double s \<longrightarrow>
      (\<forall>i. (speedIntervalIdx s = Some i) =
          (i < length kSpeedIntervalsPerStation \<and>
           double_literal (fst (kSpeedIntervalsPerStation ! i)) \<le> s \<and>
           s < double_literal (snd (kSpeedIntervalsPerStation ! i))))) \<and>
   speedIntervalIdx 13.4112 = Some 1 \<and>
   speedIntervalIdx 26.8224 = Some 2 \<and>
   speedIntervalIdx 40.2336 = None \<and>
   ((\<exists>table. addVertexToTable node_to_vertices_table vertex = Inr table) =
      (\<exists>i. speedIntervalIdx (vertex_speed vertex) = Some i)) \<and>
   ((addVertexToTable node_to_vertices_table vertex = Inl UndefinedStringRange) =
      (speedIntervalIdx (vertex_speed vertex) = None)) \<and>
   (is_double (vertex_speed vertex) \<longrightarrow>
      ((\<exists>table. addVertexToTable node_to_vertices_table vertex = Inr table) =
         (0 \<le> vertex_speed vertex \<and> vertex_speed vertex < 40.2336)))"
proof -
  have a: "(\<exists>i. speedIntervalIdx x = Some i) = (0 \<le> x \<and> x < 40.2336)" if "is_double x" for x
  proof -
    have "round_double x = Finite x" using that by (simp add: is_double_def)
    then have "(\<exists>i. speedIntervalIdx x = Some i) = (0 \<le> x \<and> x < double_literal 40.2336)"
      by (simp add: speedIntervalIdx_valid)
    then show ?thesis using double_below_upper_bound [OF that] upper_bound_above by auto
  qed
  have zero: "double_literal 0 = 0" by (simp add: double_literal_def round_double_def)
  have b: "(speedIntervalIdx s = Some i) =
          (i < length kSpeedIntervalsPerStation \<and>
           double_literal (fst (kSpeedIntervalsPerStation ! i)) \<le> s \<and>
           s < double_literal (snd (kSpeedIntervalsPerStation ! i)))" if "is_double s" for i
  proof -
    have r: "round_double s = Finite s" using that by (simp add: is_double_def)
    consider "i = 0" | "i = 1" | "i = 2" | "3 \<le> i" by linarith
    then show ?thesis
      unfolding speedIntervalIdx_finite [OF r]
      using speed_interval_order zero
      by cases (auto simp: kSpeedIntervalsPerStation_def)
  qed
  have c: "speedIntervalIdx 13.4112 = Some 1" "speedIntervalIdx 26.8224 = Some 2"
    "speedIntervalIdx 40.2336 = None"
    by (simp_all add: speedIntervalIdx_def kSpeedIntervalsPerStation_def double_eval)
  have d: "(addVertexToTable node_to_vertices_table vertex = Inl UndefinedStringRange) =
      (speedIntervalIdx (vertex_speed vertex) = None)"
    by (auto simp: addVertexToTable_def Let_def split: option.splits)
  have e: "(\<exists>table. addVertexToTable node_to_vertices_table vertex = Inr table) =
      (\<exists>i. speedIntervalIdx (vertex_speed vertex) = Some i)"
    by (auto simp: addVertexToTable_def Let_def split: option.splits)
  have f: "(\<exists>table. addVertexToTable node_to_vertices_table vertex = Inr table) =
         (0 \<le> vertex_speed vertex \<and> vertex_speed vertex < 40.2336)"
    if "is_double (vertex_speed vertex)"
    using e a [OF that] by simp
  show ?thesis using a [of s] b c d e f by blast
qed

text \<open>
  The speed 40 is a double, in the third interval. The double that 13.4112 stands for is
  below the decimal value, and it is the lower bound of the second interval.
\<close>

theorem speedIntervalIdx_intervals_witness:
  "is_double 40 \<and> (\<exists>i. speedIntervalIdx 40 = Some i) \<and> speedIntervalIdx 40 = Some 2 \<and>
   is_double (double_literal 13.4112) \<and> double_literal 13.4112 < 13.4112 \<and>
   (\<exists>i. speedIntervalIdx (double_literal 13.4112) = Some i) \<and>
   speedIntervalIdx (double_literal 13.4112) = Some 1"
proof -
  have d: "is_double 40" "is_double (double_literal 13.4112)"
    unfolding speed_interval_bounds by (simp_all add: is_double_def double_eval)
  have r: "round_double 40 = Finite 40"
    "round_double (double_literal 13.4112) = Finite (double_literal 13.4112)"
    using d by (simp_all add: is_double_def)
  have v: "speedIntervalIdx 40 = Some 2" "speedIntervalIdx (double_literal 13.4112) = Some 1"
    "double_literal 13.4112 < 13.4112"
  proof -
    show "speedIntervalIdx 40 = Some 2"
      unfolding speedIntervalIdx_finite [OF r(1)] speed_interval_bounds by simp
    have "speedIntervalIdx (double_literal 13.4112) =
       (if double_literal 13.4112 < 0 then None
        else if double_literal 13.4112 < double_literal 13.4112 then Some 0
        else if double_literal 13.4112 < double_literal 26.8224 then Some 1
        else if double_literal 13.4112 < double_literal 40.2336 then Some 2
        else None)"
      by (rule speedIntervalIdx_finite [OF r(2)])
    then show "speedIntervalIdx (double_literal 13.4112) = Some 1"
      using speed_interval_order by simp
    show "double_literal 13.4112 < 13.4112" unfolding speed_interval_bounds by simp
  qed
  from speedIntervalIdx_intervals [where s = 40, THEN conjunct1, THEN mp, OF d(1)]
  have a: "\<exists>i. speedIntervalIdx 40 = Some i" by simp
  from speedIntervalIdx_intervals [where s = "double_literal 13.4112", THEN conjunct1,
      THEN mp, OF d(2)]
  have b: "\<exists>i. speedIntervalIdx (double_literal 13.4112) = Some i"
    unfolding speed_interval_bounds by simp
  show ?thesis using d v a b by blast
qed

subsection \<open>selectOptimalPath\<close>






subsection \<open>The example graph\<close>












end
